theory Spec2Isabelle
  imports Main "HOL-Library.Monad_Syntax"
begin

section \<open>JavaScript strings\<close>

text \<open>
  A JavaScript string is a sequence of UTF-16 code units. The model works with the code
  units U+0000 .. U+00FF (Latin-1): a \<^typ>\<open>char\<close> is read as the code unit with the same
  number, and \<^typ>\<open>string\<close> is the string type. Every library function below is the
  restriction of the ECMAScript function of the same name to these strings.
\<close>

definition toLowerChar :: "char \<Rightarrow> char" where
  \<comment> \<open>\<open>String.prototype.toLowerCase\<close> on one code unit: A-Z, and U+00C0 .. U+00DE
      without the multiplication sign U+00D7, move up by 32.\<close>
  "toLowerChar c =
     (let n = (of_char c :: nat)
      in if (65 \<le> n \<and> n \<le> 90) \<or> (192 \<le> n \<and> n \<le> 222 \<and> n \<noteq> 215)
         then char_of (n + 32) else c)"

definition toLowerCase :: "string \<Rightarrow> string" where
  "toLowerCase s = map toLowerChar s"

definition isWhiteSpace :: "char \<Rightarrow> bool" where
  \<comment> \<open>The class \<open>\s\<close>, which is also what \<open>trim\<close> strips: TAB, LF, VT, FF, CR, space
      and the no-break space U+00A0.\<close>
  "isWhiteSpace c =
     (let n = (of_char c :: nat) in (9 \<le> n \<and> n \<le> 13) \<or> n = 32 \<or> n = 160)"

definition trim :: "string \<Rightarrow> string" where
  "trim s = rev (dropWhile isWhiteSpace (rev (dropWhile isWhiteSpace s)))"

definition startsWith :: "string \<Rightarrow> string \<Rightarrow> bool" where
  "startsWith s p = (take (length p) s = p)"

definition endsWith :: "string \<Rightarrow> string \<Rightarrow> bool" where
  "endsWith s p = (length p \<le> length s \<and> drop (length s - length p) s = p)"

fun includesStr :: "string \<Rightarrow> string \<Rightarrow> bool" where
  \<comment> \<open>\<open>s.includes(key)\<close>: \<open>key\<close> occurs somewhere in \<open>s\<close>.\<close>
  "includesStr [] key = (key = [])"
| "includesStr (c # cs) key = (if startsWith (c # cs) key then True else includesStr cs key)"

definition slice_1_m1 :: "string \<Rightarrow> string" where
  \<comment> \<open>\<open>part.slice(1, -1)\<close>: from index 1 up to, not including, the last index.\<close>
  "slice_1_m1 s = take (length s - 1 - 1) (drop 1 s)"

section \<open>The token pattern\<close>

text \<open>
  The regular expression \<open>\[[^\]]+\]\<close> is used by the parser (\<open>split\<close>) and by the
  applier (\<open>match\<close>, \<open>replace\<close>). A match at the head of a string is an opening
  bracket, the longest non-empty run of characters other than the closing bracket, and a
  closing bracket. The run is greedy; giving characters back never helps, since the
  character after a shorter run is not a closing bracket. \<open>matchToken\<close> returns the length
  of the match.
\<close>

definition matchToken :: "string \<Rightarrow> nat option" where
  "matchToken s =
     (case s of
        [] \<Rightarrow> None
      | c # cs \<Rightarrow>
          if c \<noteq> CHR ''['' then None
          else let run = takeWhile (\<lambda>x. x \<noteq> CHR '']'') cs
               in if run = [] then None
                  else if length run < length cs then Some (length run + 2)
                  else None)"

lemma matchToken_pos: "matchToken s = Some n \<Longrightarrow> 0 < n \<and> n \<le> length s"
  by (auto simp: matchToken_def Let_def split: list.splits if_splits)

text \<open>
  \<open>value.split(/(\[[^\]]+\])/g)\<close>: the scan moves through the string from the left; at a
  match it emits the text collected since the last match (possibly empty), then the
  captured token, and goes on after the match; at the end it emits the remaining text.
  \<open>acc\<close> is the text collected so far.
\<close>

function splitTokens :: "string \<Rightarrow> string \<Rightarrow> string list" where
  "splitTokens acc [] = [acc]"
| "splitTokens acc (c # cs) =
     (case matchToken (c # cs) of
        Some n \<Rightarrow> acc # take n (c # cs) # splitTokens [] (drop n (c # cs))
      | None \<Rightarrow> splitTokens (acc @ [c]) cs)"
  by pat_completeness auto
termination
  by (relation "measure (\<lambda>(acc, s). length s)") (auto dest: matchToken_pos)

section \<open>TokenInput: the parser\<close>

datatype token_type = Token | Text

record token =
  ttype :: token_type
  tvalue :: string
  content :: string
  display :: string
  key :: nat
  originalIndex :: nat

definition mkToken :: "string \<Rightarrow> nat \<Rightarrow> token" where
  \<comment> \<open>The callback of \<open>parts.map\<close>.\<close>
  "mkToken part index =
     (if startsWith part ''['' \<and> endsWith part '']''
      then \<lparr>ttype = Token, tvalue = part,
            content = toLowerCase (trim (slice_1_m1 part)),
            display = part, key = index, originalIndex = index\<rparr>
      else \<lparr>ttype = Text, tvalue = part, content = part,
            display = part, key = index, originalIndex = index\<rparr>)"

definition parse :: "string \<Rightarrow> token list" where
  \<comment> \<open>The effect of \<open>useEffect\<close> on \<open>tokens\<close>: the empty string is falsy.\<close>
  "parse v =
     (if v \<noteq> []
      then filter (\<lambda>t. tvalue t \<noteq> [])
             (map (\<lambda>(index, part). mkToken part index) (enumerate 0 (splitTokens [] v)))
      else [])"

section \<open>TokenInput: the click handler\<close>

fun findIndexFrom :: "('a \<Rightarrow> bool) \<Rightarrow> 'a list \<Rightarrow> int \<Rightarrow> int" where
  "findIndexFrom P [] i = - 1"
| "findIndexFrom P (x # xs) i = (if P x then i else findIndexFrom P xs (i + 1))"

definition findIndex :: "('a \<Rightarrow> bool) \<Rightarrow> 'a list \<Rightarrow> int" where
  \<comment> \<open>\<open>Array.prototype.findIndex\<close>: the first index whose element satisfies the
      predicate, -1 when there is none.\<close>
  "findIndex P xs = findIndexFrom P xs 0"

definition slice_0 :: "'a list \<Rightarrow> int \<Rightarrow> 'a list" where
  \<comment> \<open>\<open>xs.slice(0, e)\<close>: a negative end counts from the end of the array.\<close>
  "slice_0 xs e =
     (if e < 0 then take (nat (int (length xs) + e)) xs else take (nat e) xs)"

text \<open>
  \<open>handleTokenClick(token, event)\<close>, for a component that was given \<open>onTokenClick\<close> and
  whose container is mounted. The result is what is passed to \<open>onTokenClick\<close>: the token's
  content and the index \<open>tokenTypeIndex\<close> (the pixel position, read from the page, is
  left out); None when the handler does not call it.
\<close>

definition handleTokenClick :: "token list \<Rightarrow> token \<Rightarrow> (string \<times> int) option" where
  "handleTokenClick tokens tok =
     (if ttype tok = Token
      then
        let tokenTypeIndex =
          (if toLowerCase (content tok) = ''name''
           then
             let tokensBeforeThis = slice_0 tokens (findIndex (\<lambda>t. key t = key tok) tokens)
             in int (length (filter
                  (\<lambda>t. ttype t = Token \<and> toLowerCase (content t) = ''name'')
                  tokensBeforeThis))
           else findIndex (\<lambda>t. key t = key tok) (filter (\<lambda>t. ttype t = Token) tokens))
        in Some (content tok, tokenTypeIndex)
      else None)"

definition ordinalAmongSameLiteral :: "token list \<Rightarrow> nat \<Rightarrow> int" where
  \<comment> \<open>The specification's index of the \<open>i\<close>-th segment: how many tokens with the same
      content stand before it.\<close>
  "ordinalAmongSameLiteral tokens i =
     int (length (filter (\<lambda>t. ttype t = Token \<and> content t = content (tokens ! i))
       (take i tokens)))"

definition ordinalAmongAllTokens :: "token list \<Rightarrow> nat \<Rightarrow> int" where
  \<comment> \<open>How many tokens, of any content, stand before the \<open>i\<close>-th segment.\<close>
  "ordinalAmongAllTokens tokens i =
     int (length (filter (\<lambda>t. ttype t = Token) (take i tokens)))"

section \<open>Regular expressions of the resolver\<close>

text \<open>
  With the flag \<open>i\<close> two code units match when they have the same canonical form; on the
  code units of this model these are the pairs that \<open>toLowerCase\<close> identifies.
\<close>

fun startsWithCI :: "string \<Rightarrow> string \<Rightarrow> bool" where
  \<comment> \<open>The literal \<open>lit\<close> matches at the head of \<open>s\<close>, character by character.\<close>
  "startsWithCI s [] = True"
| "startsWithCI [] (l # ls) = False"
| "startsWithCI (c # cs) (l # ls) =
     (if toLowerChar c = toLowerChar l then startsWithCI cs ls else False)"

fun searchCI :: "string \<Rightarrow> string \<Rightarrow> nat \<Rightarrow> nat option" where
  \<comment> \<open>The first position, counted from \<open>i\<close> on, where the literal \<open>lit\<close> matches.\<close>
  "searchCI lit [] i = (if lit = [] then Some i else None)"
| "searchCI lit (c # cs) i =
     (if startsWithCI (c # cs) lit then Some i else searchCI lit cs (Suc i))"

definition nameTokenRegex_exec :: "string \<Rightarrow> nat \<Rightarrow> (nat \<times> nat) option" where
  \<comment> \<open>\<open>nameTokenRegex.exec(str)\<close> for the global \<open>/\[name\]/gi\<close> with the given
      \<open>lastIndex\<close>: the index of the match and the new \<open>lastIndex\<close>, or None for null.\<close>
  "nameTokenRegex_exec str lastIndex =
     (if length str < lastIndex then None
      else map_option (\<lambda>i. (i, i + length ''[name]''))
             (searchCI ''[name]'' (drop lastIndex str) lastIndex))"

text \<open>
  The \<open>while\<close> loop that looks for the \<open>tokenIndex\<close>-th \<open>[name]\<close>. Its result is
  \<open>targetTokenPosition\<close>; a run that never leaves the loop has no result.
\<close>

partial_function (option) nameTokenLoop :: "string \<Rightarrow> int \<Rightarrow> nat \<Rightarrow> int \<Rightarrow> int option" where
  "nameTokenLoop str tokenIndex lastIndex nameTokenCount =
     (case nameTokenRegex_exec str lastIndex of
        None \<Rightarrow> Some (- 1)
      | Some m \<Rightarrow>
          if nameTokenCount = tokenIndex then Some (int (fst m))
          else nameTokenLoop str tokenIndex (snd m) (nameTokenCount + 1))"

declare nameTokenLoop.simps [code]

fun countNameTokens :: "string \<Rightarrow> nat" where
  \<comment> \<open>\<open>(s.match(/\[name\]/gi) || []).length\<close>\<close>
  "countNameTokens [] = 0"
| "countNameTokens (c # cs) =
     (if startsWithCI (c # cs) ''[name]''
      then Suc (countNameTokens (drop (length ''[name]'') (c # cs)))
      else countNameTokens cs)"

function splitWhiteSpace :: "string \<Rightarrow> string \<Rightarrow> string list" where
  \<comment> \<open>\<open>s.split(/\s+/)\<close>; the first argument is the word collected so far.\<close>
  "splitWhiteSpace acc [] = [acc]"
| "splitWhiteSpace acc (c # cs) =
     (if isWhiteSpace c then acc # splitWhiteSpace [] (dropWhile isWhiteSpace cs)
      else splitWhiteSpace (acc @ [c]) cs)"
  by pat_completeness auto
termination
  by (relation "measure (\<lambda>(acc, s). length s)")
    (auto simp: less_Suc_eq_le length_dropWhile_le)

fun join :: "string \<Rightarrow> string list \<Rightarrow> string" where
  "join sep [] = []"
| "join sep [x] = x"
| "join sep (x # y # ys) = x @ sep @ join sep (y # ys)"

definition slice_last :: "nat \<Rightarrow> 'a list \<Rightarrow> 'a list" where
  \<comment> \<open>\<open>xs.slice(-n)\<close>\<close>
  "slice_last n xs = drop (length xs - n) xs"

definition isWordChar :: "char \<Rightarrow> bool" where
  \<comment> \<open>The class \<open>\w\<close>: letters of the basic alphabet, digits and the underscore.\<close>
  "isWordChar c =
     (let n = (of_char c :: nat)
      in (48 \<le> n \<and> n \<le> 57) \<or> (65 \<le> n \<and> n \<le> 90) \<or> n = 95 \<or> (97 \<le> n \<and> n \<le> 122))"

definition wordBoundary :: "char option \<Rightarrow> char option \<Rightarrow> bool" where
  \<comment> \<open>\<open>\b\<close> between the character before and the character after a position; the ends
      of the string count as non-word characters.\<close>
  "wordBoundary before after =
     ((case before of None \<Rightarrow> False | Some c \<Rightarrow> isWordChar c) \<noteq>
      (case after of None \<Rightarrow> False | Some c \<Rightarrow> isWordChar c))"

definition headOpt :: "'a list \<Rightarrow> 'a option" where
  "headOpt xs = (case xs of [] \<Rightarrow> None | x # _ \<Rightarrow> Some x)"

definition lastOpt :: "'a list \<Rightarrow> 'a option" where
  "lastOpt xs = headOpt (rev xs)"

definition wordBoundedHere :: "string \<Rightarrow> char option \<Rightarrow> string \<Rightarrow> bool" where
  \<comment> \<open>\<open>\blit\b\<close> matches at the head of \<open>s\<close>, whose left neighbour is \<open>before\<close>.\<close>
  "wordBoundedHere lit before s =
     (startsWith s lit \<and> wordBoundary before (headOpt s) \<and>
      wordBoundary (lastOpt (take (length lit) s)) (headOpt (drop (length lit) s)))"

fun wordBoundedFrom :: "string \<Rightarrow> char option \<Rightarrow> string \<Rightarrow> bool" where
  "wordBoundedFrom lit before [] = wordBoundedHere lit before []"
| "wordBoundedFrom lit before (c # cs) =
     (if wordBoundedHere lit before (c # cs) then True
      else wordBoundedFrom lit (Some c) cs)"

definition testWordBounded :: "string list \<Rightarrow> string \<Rightarrow> bool" where
  \<comment> \<open>\<open>/\ba\b|\bb\b/.test(s)\<close> for the alternatives \<open>[a, b]\<close>.\<close>
  "testWordBounded alts s = list_ex (\<lambda>lit. wordBoundedFrom lit None s) alts"

definition isLineTerminator :: "char \<Rightarrow> bool" where
  \<comment> \<open>The characters that the dot does not match: LF and CR.\<close>
  "isLineTerminator c = (c = CHR 0x0A \<or> c = CHR 0x0D)"

fun lazyDots :: "(string \<Rightarrow> bool) \<Rightarrow> string \<Rightarrow> bool" where
  \<comment> \<open>\<open>.*?\<close> followed by the rest of the pattern, \<open>k\<close>.\<close>
  "lazyDots k [] = k []"
| "lazyDots k (c # cs) =
     (if k (c # cs) then True
      else if isLineTerminator c then False
      else lazyDots k cs)"

fun seqHere :: "string list \<Rightarrow> string \<Rightarrow> bool" where
  \<comment> \<open>\<open>a.*?b.*?c\<close> matches at the head of the string, for the literals \<open>[a, b, c]\<close>.\<close>
  "seqHere [] s = True"
| "seqHere [lit] s = startsWithCI s lit"
| "seqHere (lit # lits) s =
     (if startsWithCI s lit then lazyDots (seqHere lits) (drop (length lit) s)
      else False)"

fun seqFrom :: "string list \<Rightarrow> string \<Rightarrow> bool" where
  "seqFrom lits [] = seqHere lits []"
| "seqFrom lits (c # cs) = (if seqHere lits (c # cs) then True else seqFrom lits cs)"

definition testSeq :: "string list list \<Rightarrow> string \<Rightarrow> bool" where
  \<comment> \<open>\<open>/a.*?b|b.*?a/i.test(s)\<close> for the alternatives \<open>[[a, b], [b, a]]\<close>.\<close>
  "testSeq alts s = list_ex (\<lambda>lits. seqFrom lits s) alts"

section \<open>RoleBasedDropdown: the resolver\<close>

text \<open>
  \<open>directRoleMapping\<close> and \<open>roleData\<close> are object literals. Reading a property of such an
  object looks at the object's own properties first and at those of \<open>Object.prototype\<close>
  after them, so the value read is a string of the table, a member of
  \<open>Object.prototype\<close>, or undefined.
\<close>

datatype js_value =
    Str string
  | Inherited string  \<comment> \<open>the member of \<open>Object.prototype\<close> with this name: an object\<close>

definition truthy :: "js_value \<Rightarrow> bool" where
  "truthy v = (case v of Str s \<Rightarrow> s \<noteq> [] | Inherited _ \<Rightarrow> True)"

definition objectPrototypeNames :: "string list" where
  "objectPrototypeNames =
     [''constructor'', ''__defineGetter__'', ''__defineSetter__'', ''hasOwnProperty'',
      ''__lookupGetter__'', ''__lookupSetter__'', ''isPrototypeOf'',
      ''propertyIsEnumerable'', ''toString'', ''valueOf'', ''__proto__'',
      ''toLocaleString'']"

definition getProperty :: "(string \<times> string) list \<Rightarrow> string \<Rightarrow> js_value option" where
  \<comment> \<open>\<open>obj[name]\<close> for an object literal with string values; None is undefined.\<close>
  "getProperty obj name =
     (case map_of obj name of
        Some v \<Rightarrow> Some (Str v)
      | None \<Rightarrow> if name \<in> set objectPrototypeNames then Some (Inherited name) else None)"

definition directRoleMapping :: "(string \<times> string) list" where
  "directRoleMapping =
     [(''business head'', ''Business Head''),
      (''group business manager'', ''Group Business Manager''),
      (''channel champ'', ''Channel Champ''),
      (''group channel champ'', ''Group Channel Champ''),
      (''vertical account'', ''Vertical Account''),
      (''regional commercial business manager'', ''Regional Commercial Business Manager''),
      (''business manager'', ''Regional Commercial Business Manager''),
      (''year'', ''Year''),
      (''account'', ''Vertical Account''),
      (''vertical champ'', ''Vertical Champ''),
      (''oem'', ''OEM''),
      (''partner'', ''Partner''),
      (''end customer'', ''End Customer''),
      (''customer'', ''End Customer'')]"

definition partialMatch :: "string \<Rightarrow> string option" where
  \<comment> \<open>The loop over \<open>Object.entries(directRoleMapping)\<close>: the value of the first entry,
      in the order of the literal, whose key occurs in the placeholder.\<close>
  "partialMatch lowerPlaceholder =
     map_option snd (find (\<lambda>(k, v). includesStr lowerPlaceholder k) directRoleMapping)"

definition rolePatterns :: "(string list \<times> string) list" where
  "rolePatterns =
     [([''oem''], ''OEM''),
      ([''partner''], ''Partner''),
      ([''end customer'', ''customer''], ''End Customer''),
      ([''business head''], ''Business Head''),
      ([''group business manager''], ''Group Business Manager''),
      ([''group channel champ''], ''Group Channel Champ''),
      ([''channel champ''], ''Channel Champ''),
      ([''vertical champ''], ''Vertical Champ''),
      ([''regional commercial business manager'', ''business manager''],
       ''Regional Commercial Business Manager''),
      ([''vertical account'', ''account''], ''Vertical Account'')]"

definition rolePatternsMatch :: "string \<Rightarrow> string \<Rightarrow> string option" where
  \<comment> \<open>The loop over \<open>rolePatterns\<close>: the role of the first pattern that matches the
      recent words or the text before the token.\<close>
  "rolePatternsMatch recentWords textBeforeToken =
     map_option snd
       (find (\<lambda>(pattern, role).
                testWordBounded pattern recentWords \<or> testWordBounded pattern textBeforeToken)
          rolePatterns)"

definition multiNamePatterns :: "(string list list \<times> string \<times> string) list" where
  "multiNamePatterns =
     [([[''business head'', ''with'', ''oem''], [''oem'', ''with'', ''business head'']],
       ''Business Head'', ''OEM''),
      ([[''business manager'', ''oem''], [''oem'', ''business manager'']],
       ''Regional Commercial Business Manager'', ''OEM''),
      ([[''group channel champ'', ''partner''], [''partner'', ''group channel champ'']],
       ''Group Channel Champ'', ''Partner''),
      ([[''channel champ'', ''partner''], [''partner'', ''channel champ'']],
       ''Channel Champ'', ''Partner''),
      ([[''vertical champ'', ''customer''], [''customer'', ''vertical champ'']],
       ''Vertical Champ'', ''End Customer'')]"

fun multiNameLoop ::
  "(string list list \<times> string \<times> string) list \<Rightarrow> string \<Rightarrow> nat \<Rightarrow> string option" where
  \<comment> \<open>The loop over \<open>multiNamePatterns\<close>; \<open>roles[0]\<close> and \<open>roles[1]\<close> are tested for
      being non-empty, as the source does.\<close>
  "multiNameLoop [] fullContext nameTokensBefore = None"
| "multiNameLoop ((pattern, role0, role1) # rest) fullContext nameTokensBefore =
     (if testSeq pattern fullContext
      then (if nameTokensBefore = 0 \<and> role0 \<noteq> [] then Some role0
            else if 1 \<le> nameTokensBefore \<and> role1 \<noteq> [] then Some role1
            else multiNameLoop rest fullContext nameTokensBefore)
      else multiNameLoop rest fullContext nameTokensBefore)"

definition positionBasedRole :: "string \<Rightarrow> nat \<Rightarrow> string option" where
  \<comment> \<open>The body of \<open>if (targetTokenPosition >= 0)\<close>: the role it returns, or None when it
      falls through to the keyword fallback.\<close>
  "positionBasedRole fullInputContext targetTokenPosition =
     (let textBeforeToken = toLowerCase (take targetTokenPosition fullInputContext);
          wordsBeforeToken = filter (\<lambda>word. 0 < length word) (splitWhiteSpace [] textBeforeToken);
          recentWords = join '' '' (slice_last 5 wordsBeforeToken)
      in case rolePatternsMatch recentWords textBeforeToken of
           Some role \<Rightarrow> Some role
         | None \<Rightarrow>
             let fullContext = toLowerCase fullInputContext;
                 textBeforeTarget = take targetTokenPosition fullInputContext;
                 nameTokensBefore = countNameTokens textBeforeTarget
             in multiNameLoop multiNamePatterns fullContext nameTokensBefore)"

definition keywordToRole :: "(string list \<times> string) list" where
  "keywordToRole =
     [([''business manager''], ''Regional Commercial Business Manager''),
      ([''group channel champ''], ''Group Channel Champ''),
      ([''channel champ''], ''Channel Champ''),
      ([''vertical champ''], ''Vertical Champ''),
      ([''business head''], ''Business Head''),
      ([''group business manager''], ''Group Business Manager''),
      ([''oem''], ''OEM''),
      ([''partner''], ''Partner''),
      ([''customer'', ''end customer''], ''End Customer''),
      ([''vertical account''], ''Vertical Account'')]"

definition keywordMatch :: "string \<Rightarrow> string option" where
  \<comment> \<open>The loop over \<open>keywordToRole\<close>.\<close>
  "keywordMatch context =
     map_option snd
       (find (\<lambda>(keywords, role). list_ex (\<lambda>keyword. includesStr context keyword) keywords)
          keywordToRole)"

definition keywordFallback :: "string \<Rightarrow> string" where
  \<comment> \<open>The fallback of the \<open>[Name]\<close> branch, with its default.\<close>
  "keywordFallback fullInputContext =
     (case keywordMatch (toLowerCase fullInputContext) of
        Some role \<Rightarrow> role
      | None \<Rightarrow> ''Business Head'')"

text \<open>
  \<open>getRoleFromPlaceholder(placeholder, tokenIndex)\<close>, with the property
  \<open>fullInputContext\<close> of the component as a second argument. The logging and the two
  unused locals (\<open>tokens\<close>, \<open>words\<close>) are left out. The result is None when the scan for
  the \<open>[Name]\<close> token has no result.
\<close>

definition getRoleFromPlaceholder :: "string \<Rightarrow> string \<Rightarrow> int \<Rightarrow> js_value option" where
  "getRoleFromPlaceholder placeholder fullInputContext tokenIndex =
     (let lowerPlaceholder = trim (toLowerCase placeholder)
      in if lowerPlaceholder \<noteq> ''name'' \<and>
            (case getProperty directRoleMapping lowerPlaceholder of
               Some v \<Rightarrow> truthy v
             | None \<Rightarrow> False)
         then getProperty directRoleMapping lowerPlaceholder
         else
           case (if lowerPlaceholder \<noteq> ''name'' then partialMatch lowerPlaceholder
                 else None) of
             Some role \<Rightarrow> Some (Str role)
           | None \<Rightarrow>
               if lowerPlaceholder = ''name''
               then
                 (if 0 \<le> tokenIndex
                  then do {
                    targetTokenPosition \<leftarrow> nameTokenLoop fullInputContext tokenIndex 0 0;
                    case (if 0 \<le> targetTokenPosition
                          then positionBasedRole fullInputContext (nat targetTokenPosition)
                          else None) of
                      Some role \<Rightarrow> Some (Str role)
                    | None \<Rightarrow> Some (Str (keywordFallback fullInputContext))
                  }
                  else Some (Str (keywordFallback fullInputContext)))
               else Some (Str ''Business Head''))"

definition roleData :: "(string \<times> string list) list" where
  "roleData =
     [(''Business Head'',
       [''Brijesh Shrivastava'', ''Sunil Kumar Pillai'', ''Sushant Ranshur'']),
      (''Group Business Manager'',
       [''Manoranjan Rana'', ''Amol Bharat Dalal'', ''Ankit Pandey'',
        ''Dipanjan Ghosh'', ''Kanchan Ganeshrane'', ''Mihir Ghosh'',
        ''Mohamed Riyaz'', ''Mukundan Gs'', ''Saurabh Kumar'',
        ''Rupa Sharma'', ''Nagendra Bharadwaj'']),
      (''Channel Champ'',
       [''Aayush Kaul'', ''Anu Johnson'', ''Chaitanya Deshmukh'',
        ''Adeel Ahmed'', ''Mohit Chugh'', ''Gaurav Upadhyay'',
        ''Himanshu Sharma'', ''Lalit S Sudrik'']),
      (''Group Channel Champ'',
       [''Jitender Sharma'', ''Lalit S Sudrik'',
        ''Sathyanarayna H S'', ''Calvin Samuel'']),
      (''Vertical Account'',
       [''BFSI'', ''Enterprises'', ''Government'', ''PSU-Gov'']),
      (''Vertical Champ'',
       [''Aarun Sudhir'', ''Abinash Sahoo'', ''Adarsh Priyatam'',
        ''Ajay Vasoya'', ''Akash Singhal'', ''Amit Jain'',
        ''Ankit Gupta'', ''Arpit Bharti'', ''Atul Sharma'']),
      (''Regional Commercial Business Manager'',
       [''Ankit Pandey'', ''Animesh Saraswat'', ''Aysha Nathiha A'',
        ''Amol Bharat Dalal'', ''Jalindra Chavan'', ''Dipanjan Ghosh'',
        ''Jatin Dev'', ''Manoranjan Rana'', ''Mohamed Riyaz'',
        ''Mihir Ghosh'', ''Kanchan Ganeshrane'', ''Mohit Bohra'',
        ''Rakesh Kumar Jena'', ''Mukundan Gs'', ''Nagendra Bharadwaj'',
        ''Sorabh Saraswat'', ''Rupa Sharma'', ''Umesh K. Muralidhar'']),
      (''Year'',
       [''2022-23'', ''2023-24'', ''2024-25'', ''2025-26'', ''2026-27'',
        ''2027-28'', ''2028-29'', ''2029-30'', ''2030-31'', ''2031-32'']),
      (''OEM'',
       [''SENTINELONE'',
        ''1KOSMOS'', ''A10'', ''AKAMAI'', ''ALGOSEC'', ''Alcatel'',
        ''ANOMALI'', ''APPNOMIC'', ''ARCON'', ''ARCSERVE'', ''ARISTA'',
        ''Array'', ''BLACKBERRY'', ''CHECKPOINT'', ''CLOUDFLARE'', ''CLOUDERA'',
        ''CLOUDSEK'', ''COHESITY'', ''CONFLUENT'', ''CYBERARK'', ''DELINEA'',
        ''DYNATRACE'', ''EnterpriseDB'', ''ENTRUST'', ''EXINDA'', ''FORCEPOINT'',
        ''FORTRA'', ''GCP CLOUD'', ''Github'', ''GOOGLE SECOPS'', ''GRIDGAIN'',
        ''GURUCUL SOLUTIONS'', ''HITACHI'', ''INNSPARK'', ''Instasafe'', ''KEYSIGHT'',
        ''LENOVO'', ''MASTERCARD'', ''Morphisec'', ''NETSCOUT'', ''NETSKOPE'',
        ''NUTANIX'', ''OPENTEXT'', ''PROGIST'', ''QUANTUM'', ''RSA'',
        ''RUBRIK'', ''Sapphire'', ''SOLACE'', ''SPLUNK'', ''SOTI'',
        ''STRATUS'', ''SUSE'', ''TENABLE'', ''THALES'', ''VANTAGEO'',
        ''WebWerks'', ''YUBICO'']),
      (''Partner'',
       [''Techjockey Infotech Pvt Ltd'', ''Riskberg Consulting Pvt Ltd'', ''Anantya Infratech'',
        ''RAH Infotech Pvt Ltd'', ''Sify Technologies Ltd'', ''Tecmee Technologies Pvt Ltd'',
        ''Integre Solutions Pvt Ltd'', ''Golden Bright Star Pvt Ltd'', ''Infosys Ltd'']),
      (''End Customer'',
       [''Infosys'', ''Tata Consultancy'', ''Wipro'', ''HCL Technologies'',
        ''Cognizant'', ''Accenture'', ''Capgemini'', ''IBM India'']),
      (''Name'',
       [''Brijesh Shrivastava'', ''Sunil Kumar Pillai'', ''Sushant Ranshur'',
        ''Manoranjan Rana'', ''Amol Bharat Dalal'', ''Ankit Pandey'',
        ''Dipanjan Ghosh'', ''Kanchan Ganeshrane'', ''Mihir Ghosh'',
        ''Mohamed Riyaz'', ''Mukundan Gs'', ''Saurabh Kumar'',
        ''Rupa Sharma'', ''Nagendra Bharadwaj'',
        ''Aayush Kaul'', ''Anu Johnson'', ''Chaitanya Deshmukh'',
        ''Adeel Ahmed'', ''Mohit Chugh'', ''Gaurav Upadhyay'',
        ''Himanshu Sharma'', ''Lalit S Sudrik'',
        ''Sathyanarayna H S'', ''Calvin Samuel'',
        ''Aarun Sudhir'', ''Abinash Sahoo'', ''Adarsh Priyatam'',
        ''Ajay Vasoya'', ''Akash Singhal'', ''Amit Jain'',
        ''Ankit Gupta'', ''Arpit Bharti'', ''Atul Sharma'',
        ''Animesh Saraswat'', ''Aysha Nathiha A'', ''Jalindra Chavan'',
        ''Jatin Dev'', ''Mohit Bohra'', ''Rakesh Kumar Jena'',
        ''Sorabh Saraswat'', ''Umesh K. Muralidhar''])]"

definition roleNames :: "string list" where
  \<comment> \<open>The eleven role names of the catalog; its twelfth key is \<open>Name\<close>.\<close>
  "roleNames =
     [''Business Head'', ''Group Business Manager'', ''Channel Champ'',
      ''Group Channel Champ'', ''Vertical Account'', ''Vertical Champ'',
      ''Regional Commercial Business Manager'', ''Year'', ''OEM'', ''Partner'',
      ''End Customer'']"

datatype catalog_value =
    Candidates "string list"
  | InheritedMember string  \<comment> \<open>a member of \<open>Object.prototype\<close>, which is no list\<close>

definition items :: "js_value \<Rightarrow> catalog_value" where
  \<comment> \<open>\<open>roleData[actualRole] || []\<close>; only undefined is replaced by the empty list. A role
      that is not a string is turned into one to serve as property name: the source text
      of a built-in function or \<open>[object Object]\<close>, neither of which names a property.\<close>
  "items actualRole =
     (case actualRole of
        Str role \<Rightarrow>
          (case map_of roleData role of
             Some xs \<Rightarrow> Candidates xs
           | None \<Rightarrow>
               if role \<in> set objectPrototypeNames then InheritedMember role
               else Candidates [])
      | Inherited _ \<Rightarrow> Candidates [])"

section \<open>Chat: the applier\<close>

function matchAll :: "string \<Rightarrow> string list" where
  \<comment> \<open>\<open>input.match(/\[[^\]]+\]/g) || []\<close>: the matches from left to right, each search
      starting where the last match ended.\<close>
  "matchAll [] = []"
| "matchAll (c # cs) =
     (case matchToken (c # cs) of
        Some n \<Rightarrow> take n (c # cs) # matchAll (drop n (c # cs))
      | None \<Rightarrow> matchAll cs)"
  by pat_completeness auto
termination
  by (relation "measure length") (auto dest: matchToken_pos)

function replaceAllTokens ::
  "('s \<Rightarrow> string \<Rightarrow> string \<times> 's) \<Rightarrow> 's \<Rightarrow> string \<Rightarrow> string" where
  \<comment> \<open>\<open>input.replace(/\[[^\]]+\]/g, callback)\<close>: every match is replaced by what the
      callback returns for it, inserted as it is; the callback is called from left to
      right and may update the variables it closes over, here the state of type \<open>'s\<close>.\<close>
  "replaceAllTokens callback st [] = []"
| "replaceAllTokens callback st (c # cs) =
     (case matchToken (c # cs) of
        Some n \<Rightarrow>
          (case callback st (take n (c # cs)) of
             (r, st') \<Rightarrow> r @ replaceAllTokens callback st' (drop n (c # cs)))
      | None \<Rightarrow> c # replaceAllTokens callback st cs)"
  by pat_completeness auto
termination
  by (relation "measure (\<lambda>(callback, st, s). length s)") (auto dest: matchToken_pos)

definition replacer :: "string \<Rightarrow> string \<Rightarrow> nat \<Rightarrow> string \<Rightarrow> string \<times> nat" where
  \<comment> \<open>The callback of the applier; its state is \<open>replacementCount\<close>.\<close>
  "replacer tokenToReplace v replacementCount m =
     (if toLowerCase m = toLowerCase tokenToReplace \<and> replacementCount = 0
      then (v, replacementCount + 1)
      else (m, replacementCount))"

fun findIndexWith :: "('a \<Rightarrow> int \<Rightarrow> bool) \<Rightarrow> 'a list \<Rightarrow> int \<Rightarrow> int" where
  \<comment> \<open>\<open>findIndex\<close> with a callback that also reads the index; the third argument is the
      index of the head of the list.\<close>
  "findIndexWith P [] i = - 1"
| "findIndexWith P (x # xs) i = (if P x i then i else findIndexWith P xs (i + 1))"

text \<open>
  The fallback builds a regular expression from the placeholder. The pattern source is
  read by the \<open>RegExp\<close> constructor; the model reads the patterns that are sequences of
  literal characters: a character that is not a syntax character stands for itself, and a
  backslash followed by a syntax character stands for that character. For any other
  source (an operator, a class, a group, a backslash at the end: the sources that may be
  rejected or that match more than one text) the model gives None.
\<close>

definition backslash :: char where
  "backslash = CHR 0x5C"

definition syntaxCharacters :: "char list" where
  \<comment> \<open>The syntax characters of the pattern grammar.\<close>
  "syntaxCharacters = ''^$'' @ [backslash] @ ''.*+?()[]{}|''"

fun literalPattern :: "string \<Rightarrow> string option" where
  "literalPattern [] = Some []"
| "literalPattern (c # cs) =
     (if c = backslash
      then (case cs of
              [] \<Rightarrow> None
            | d # ds \<Rightarrow>
                if d \<in> set syntaxCharacters then map_option ((#) d) (literalPattern ds)
                else None)
      else if c \<in> set syntaxCharacters then None
      else map_option ((#) c) (literalPattern cs))"

definition escapeClass :: "char list" where
  \<comment> \<open>The characters of the class \<open>[.*+?^${}()|[\]\\]\<close>.\<close>
  "escapeClass = ''.*+?^${}()|[]'' @ [backslash]"

definition escapeRegExp :: "string \<Rightarrow> string" where
  \<comment> \<open>\<open>s.replace(/[.*+?^${}()|[\]\\]/g, '\\$&')\<close>: a backslash before every character
      of the class.\<close>
  "escapeRegExp s = concat (map (\<lambda>c. if c \<in> set escapeClass then [backslash, c] else [c]) s)"

definition patternSource :: "string \<Rightarrow> string" where
  \<comment> \<open>The template literal: \<open>\[\<close>, the escaped placeholder, \<open>\]\<close>.\<close>
  "patternSource activeDropdown =
     [backslash, CHR ''[''] @ escapeRegExp activeDropdown @ [backslash, CHR '']'']"

fun getSubstitution :: "string \<Rightarrow> string \<Rightarrow> string \<Rightarrow> string \<Rightarrow> string" where
  \<comment> \<open>What \<open>replace\<close> inserts for a replacement string, for a pattern without groups:
      \<open>$$\<close> is a dollar sign, \<open>$&\<close> the match, \<open>$`\<close> the text before the match, \<open>$'\<close> the
      text after it; every other character, also a dollar sign before anything else,
      stands for itself. The arguments are the match, the text before it, the text
      after it and the replacement string.\<close>
  "getSubstitution m before after [] = []"
| "getSubstitution m before after [c] = [c]"
| "getSubstitution m before after (c # d # r) =
     (if c = CHR ''$'' \<and> d = CHR ''$'' then CHR ''$'' # getSubstitution m before after r
      else if c = CHR ''$'' \<and> d = CHR ''&'' then m @ getSubstitution m before after r
      else if c = CHR ''$'' \<and> d = CHR 0x60 then before @ getSubstitution m before after r
      else if c = CHR ''$'' \<and> d = CHR 0x27 then after @ getSubstitution m before after r
      else c # getSubstitution m before after (d # r))"

definition replaceFirstCI :: "string \<Rightarrow> string \<Rightarrow> string \<Rightarrow> string" where
  \<comment> \<open>\<open>input.replace(pattern, v)\<close> for a pattern with the flag \<open>i\<close> that stands for the
      literal text \<open>lit\<close>: the first match is replaced, an input without a match is
      returned as it is.\<close>
  "replaceFirstCI lit v s =
     (case searchCI lit s 0 of
        None \<Rightarrow> s
      | Some i \<Rightarrow>
          let before = take i s;
              m = take (length lit) (drop i s);
              after = drop (i + length lit) s
          in before @ getSubstitution m before after v @ after)"

definition fallbackReplace :: "string \<Rightarrow> string \<Rightarrow> string \<Rightarrow> string option" where
  \<comment> \<open>The two fallback branches: \<open>new RegExp(source, 'i')\<close> and \<open>input.replace\<close>.\<close>
  "fallbackReplace activeDropdown v s =
     map_option (\<lambda>lit. replaceFirstCI lit v s) (literalPattern (patternSource activeDropdown))"

definition newInput :: "string \<Rightarrow> string \<Rightarrow> int \<Rightarrow> string \<Rightarrow> string option" where
  \<comment> \<open>The string that \<open>handleDropdownSelect\<close> passes to \<open>setInput\<close>.\<close>
  "newInput v activeDropdown currentTokenIndex inp =
     (let tokens = matchAll inp
      in if 0 \<le> currentTokenIndex \<and> currentTokenIndex < int (length tokens)
         then
           let tokenToReplace = ''['' @ activeDropdown @ '']'';
               matchingTokenIndex =
                 findIndexWith
                   (\<lambda>token index. toLowerCase token = toLowerCase tokenToReplace \<and>
                                   currentTokenIndex \<le> index)
                   tokens 0
           in if 0 \<le> matchingTokenIndex
              then Some (replaceAllTokens (replacer tokenToReplace v) 0 inp)
              else fallbackReplace activeDropdown v inp
         else fallbackReplace activeDropdown v inp)"

record chat_state =
  input :: string
  activeDropdown :: "string option"  \<comment> \<open>None is null\<close>
  currentTokenIndex :: int

definition handleDropdownSelect :: "string \<Rightarrow> chat_state \<Rightarrow> chat_state option" where
  \<comment> \<open>\<open>handleDropdownSelect(value)\<close>: the state after the call; null and the empty
      string are falsy. None when the pattern of the fallback is not one the model
      reads.\<close>
  "handleDropdownSelect v st =
     (case activeDropdown st of
        None \<Rightarrow> Some st
      | Some role \<Rightarrow>
          if role = [] then Some st
          else map_option
                 (\<lambda>inp. \<lparr>input = inp, activeDropdown = None, currentTokenIndex = - 1\<rparr>)
                 (newInput v role (currentTokenIndex st) (input st)))"

definition replaceLeftmostOccurrence :: "string \<Rightarrow> string \<Rightarrow> string \<Rightarrow> string" where
  \<comment> \<open>The specification's replacement: the left-most place of the text where \<open>lit\<close>
      occurs, compared without regard to case, is replaced by \<open>v\<close>.\<close>
  "replaceLeftmostOccurrence lit v s =
     (case searchCI lit s 0 of
        None \<Rightarrow> s
      | Some i \<Rightarrow> take i s @ v @ drop (i + length lit) s)"

section \<open>Round trip of the parser\<close>

lemma tvalue_mkToken: "tvalue (mkToken part index) = part"
  by (simp add: mkToken_def)

lemma concat_splitTokens: "concat (splitTokens acc s) = acc @ s"
proof (induction acc s rule: splitTokens.induct)
  case (1 acc)
  show ?case by simp
next
  case (2 acc c cs)
  show ?case
  proof (cases "matchToken (c # cs)")
    case None
    with 2 show ?thesis by simp
  next
    case (Some n)
    with 2 have "concat (splitTokens [] (drop n (c # cs))) = drop n (c # cs)"
      by simp
    then have "concat (splitTokens acc (c # cs)) = acc @ (take n (c # cs) @ drop n (c # cs))"
      using Some by simp
    then show ?thesis by (simp only: append_take_drop_id)
  qed
qed

lemma concat_filter_nonempty: "concat (filter (\<lambda>x. x \<noteq> []) xs) = concat xs"
  by (induction xs) auto

lemma map_tvalue_enumerate:
  "map tvalue (map (\<lambda>(index, part). mkToken part index) (enumerate k ps)) = ps"
  by (induction ps arbitrary: k) (auto simp: tvalue_mkToken)

lemma filter_map_tvalue:
  "map tvalue (filter (\<lambda>t. tvalue t \<noteq> []) ts) = filter (\<lambda>x. x \<noteq> []) (map tvalue ts)"
  by (induction ts) auto

text \<open>
  C1: for every input string, the \<open>value\<close> fields of the parsed segments, concatenated
  in order, give back the input string.
\<close>

theorem parse_round_trip: "concat (map tvalue (parse v)) = v"
proof (cases "v = []")
  case True
  then show ?thesis by (simp add: parse_def)
next
  case False
  let ?ts = "map (\<lambda>(index, part). mkToken part index) (enumerate 0 (splitTokens [] v))"
  have "map tvalue (parse v) = filter (\<lambda>x. x \<noteq> []) (map tvalue ?ts)"
    using False by (simp add: parse_def filter_map_tvalue del: map_map)
  also have "\<dots> = filter (\<lambda>x. x \<noteq> []) (splitTokens [] v)"
    by (simp only: map_tvalue_enumerate)
  finally show ?thesis
    by (simp only: concat_filter_nonempty concat_splitTokens append_Nil)
qed


section \<open>The segments of a concrete input\<close>

lemma parse_no_empty: "[] \<notin> set (map tvalue (parse v))"
  by (auto simp: parse_def)

text \<open>
  C5 (as the code has it): parsing \<open>[Business Head] vs [OEM]\<close> gives three segments,
  the token \<open>business head\<close>, the text \<open> vs \<close> and the token \<open>oem\<close>: the two empty
  strings that the split leaves at both ends are dropped. Token contents are trimmed and
  lower-cased, and no input gives a segment with an empty value.
\<close>

theorem parse_business_head_vs_oem:
  "map (\<lambda>t. (ttype t, tvalue t, content t)) (parse ''[Business Head] vs [OEM]'') =
     [(Token, ''[Business Head]'', ''business head''),
      (Text, '' vs '', '' vs ''),
      (Token, ''[OEM]'', ''oem'')]
   \<and> splitTokens [] ''[Business Head] vs [OEM]'' =
     [[], ''[Business Head]'', '' vs '', ''[OEM]'', []]
   \<and> [] \<notin> set (map tvalue (parse v))"
proof -
  have "map (\<lambda>t. (ttype t, tvalue t, content t)) (parse ''[Business Head] vs [OEM]'') =
     [(Token, ''[Business Head]'', ''business head''),
      (Text, '' vs '', '' vs ''),
      (Token, ''[OEM]'', ''oem'')]"
    by code_simp
  moreover have "splitTokens [] ''[Business Head] vs [OEM]'' =
     [[], ''[Business Head]'', '' vs '', ''[OEM]'', []]"
    by code_simp
  ultimately show ?thesis
    using parse_no_empty [of v] by simp
qed

theorem parse_business_head_vs_oem_not_five:
  "length (parse ''[Business Head] vs [OEM]'') \<noteq> 5"
  by code_simp

section \<open>The index passed by the click handler\<close>

lemma of_char_less_256: "(of_char c :: nat) < 256"
proof -
  have "(of_char c :: nat) mod 256 = of_char c" by simp
  then show ?thesis by (metis mod_less_divisor zero_less_numeral)
qed

lemma toLowerChar_idem: "toLowerChar (toLowerChar c) = toLowerChar c"
  using of_char_less_256 [of c] by (auto simp: toLowerChar_def Let_def)

lemma toLowerCase_idem: "toLowerCase (toLowerCase s) = toLowerCase s"
  by (simp add: toLowerCase_def toLowerChar_idem)

lemma map_key_enumerate:
  "map key (map (\<lambda>(index, part). mkToken part index) (enumerate k ps)) =
     [k..<k + length ps]"
proof -
  have "map key (map (\<lambda>(index, part). mkToken part index) (enumerate k ps)) =
        map fst (enumerate k ps)"
    unfolding map_map by (rule map_cong [OF refl]) (auto simp: mkToken_def)
  then show ?thesis by (simp only: map_fst_enumerate)
qed

lemma distinct_key_parse: "distinct (map key (parse v))"
proof (cases "v = []")
  case True
  then show ?thesis by (simp add: parse_def)
next
  case False
  let ?ts = "map (\<lambda>(index, part). mkToken part index) (enumerate 0 (splitTokens [] v))"
  have "distinct (map key ?ts)" by (simp only: map_key_enumerate distinct_upt)
  then have "distinct (map key (filter (\<lambda>t. tvalue t \<noteq> []) ?ts))"
    by (rule distinct_map_filter)
  with False show ?thesis by (simp add: parse_def del: map_map)
qed

lemma content_Token_lower:
  assumes "t \<in> set (parse v)" and "ttype t = Token"
  shows "toLowerCase (content t) = content t"
proof -
  from assms(1) obtain part index where "t = mkToken part index"
    by (auto simp: parse_def split: if_splits)
  with assms(2) show ?thesis
    by (auto simp: mkToken_def toLowerCase_idem split: if_splits)
qed

lemma findIndexFrom_filter_distinct:
  assumes "distinct (map f xs)" and "i < length xs" and "P (xs ! i)"
  shows "findIndexFrom (\<lambda>t. f t = f (xs ! i)) (filter P xs) k =
           k + int (length (filter P (take i xs)))"
  using assms
proof (induction xs arbitrary: i k)
  case Nil
  then show ?case by simp
next
  case (Cons x xs)
  show ?case
  proof (cases i)
    case 0
    with Cons.prems show ?thesis by simp
  next
    case (Suc j)
    with Cons.prems have j: "j < length xs" and Pj: "P (xs ! j)"
      and d: "distinct (map f xs)" and nx: "f x \<notin> f ` set xs"
      by auto
    from j nx have ne: "f x \<noteq> f (xs ! j)"
      by (metis imageI nth_mem)
    have ih: "findIndexFrom (\<lambda>t. f t = f (xs ! j)) (filter P xs) k' =
           k' + int (length (filter P (take j xs)))" for k'
      using Cons.IH [OF d j Pj] .
    show ?thesis
      using Suc ne ih [of k] ih [of "k + 1"] by simp
  qed
qed

lemma findIndex_distinct:
  assumes "distinct (map f xs)" and "i < length xs"
  shows "findIndex (\<lambda>t. f t = f (xs ! i)) xs = int i"
  using findIndexFrom_filter_distinct [of f xs i "\<lambda>_. True" 0] assms
  by (simp add: findIndex_def)

text \<open>
  C4 (as the code has it): for every input string and every clicked token, the index
  passed upward is, for a token whose content is \<open>name\<close>, the number of \<open>name\<close> tokens
  before it (the count among tokens of the same content), and for a token of any other
  content its position among all tokens of the input, whatever their content.
\<close>

theorem handleTokenClick_index:
  assumes "i < length (parse v)" and "ttype (parse v ! i) = Token"
  shows "handleTokenClick (parse v) (parse v ! i) =
           Some (content (parse v ! i),
                 if content (parse v ! i) = ''name''
                 then ordinalAmongSameLiteral (parse v) i
                 else ordinalAmongAllTokens (parse v) i)"
proof -
  let ?ts = "parse v"
  let ?t = "?ts ! i"
  have low: "toLowerCase (content ?t) = content ?t"
    using assms by (intro content_Token_lower [of _ v]) simp_all
  have idx: "findIndex (\<lambda>t. key t = key ?t) ?ts = int i"
    using distinct_key_parse assms(1) by (rule findIndex_distinct)
  show ?thesis
  proof (cases "content ?t = ''name''")
    case True
    have "filter (\<lambda>t. ttype t = Token \<and> toLowerCase (content t) = ''name'') (take i ?ts) =
          filter (\<lambda>t. ttype t = Token \<and> content t = ''name'') (take i ?ts)"
    proof (rule filter_cong [OF refl])
      fix t assume "t \<in> set (take i ?ts)"
      then have "t \<in> set ?ts" by (rule in_set_takeD)
      then show "(ttype t = Token \<and> toLowerCase (content t) = ''name'') =
                 (ttype t = Token \<and> content t = ''name'')"
        using content_Token_lower [of t v] by auto
    qed
    with True low idx assms(2) show ?thesis
      by (simp add: handleTokenClick_def slice_0_def ordinalAmongSameLiteral_def)
  next
    case False
    have "findIndex (\<lambda>t. key t = key ?t) (filter (\<lambda>t. ttype t = Token) ?ts) =
          int (length (filter (\<lambda>t. ttype t = Token) (take i ?ts)))"
      using findIndexFrom_filter_distinct
        [of key ?ts i "\<lambda>t. ttype t = Token" 0, OF distinct_key_parse assms]
      by (simp add: findIndex_def)
    with False low assms(2) show ?thesis
      by (simp add: handleTokenClick_def ordinalAmongAllTokens_def)
  qed
qed

theorem handleTokenClick_index_witness:
  "handleTokenClick (parse ''[Name] of [OEM] and [Name]'')
       (parse ''[Name] of [OEM] and [Name]'' ! 4) = Some (''name'', 1)
   \<and> handleTokenClick (parse ''[Name] of [OEM] and [Name]'')
       (parse ''[Name] of [OEM] and [Name]'' ! 2) = Some (''oem'', 1)"
proof -
  let ?v = "''[Name] of [OEM] and [Name]''"
  have len: "length (parse ?v) = 5" by code_simp
  have t4: "ttype (parse ?v ! 4) = Token" and c4: "content (parse ?v ! 4) = ''name''"
    and t2: "ttype (parse ?v ! 2) = Token" and c2: "content (parse ?v ! 2) = ''oem''"
    by code_simp+
  have o4: "ordinalAmongSameLiteral (parse ?v) 4 = 1"
    and o2: "ordinalAmongAllTokens (parse ?v) 2 = 1"
    by code_simp+
  show ?thesis
    using handleTokenClick_index [of 4 ?v] handleTokenClick_index [of 2 ?v]
      len t4 c4 t2 c2 o4 o2
    by simp
qed

theorem handleTokenClick_not_same_literal:
  "handleTokenClick (parse ''[OEM] [Partner]'') (parse ''[OEM] [Partner]'' ! 2) \<noteq>
     Some (content (parse ''[OEM] [Partner]'' ! 2),
           ordinalAmongSameLiteral (parse ''[OEM] [Partner]'') 2)"
  by code_simp


section \<open>The resolver returns\<close>

lemma startsWithCI_length: "startsWithCI s lit \<Longrightarrow> length lit \<le> length s"
  by (induction s lit rule: startsWithCI.induct) (auto split: if_splits)

lemma startsWithCI_iff:
  "startsWithCI s lit \<longleftrightarrow> toLowerCase (take (length lit) s) = toLowerCase lit"
  by (induction s lit rule: startsWithCI.induct) (auto simp: toLowerCase_def)

lemma searchCI_bounds:
  "searchCI lit s i = Some j \<Longrightarrow> i \<le> j \<and> j + length lit \<le> i + length s"
proof (induction s arbitrary: i)
  case Nil
  then show ?case by (simp split: if_splits)
next
  case (Cons c cs)
  show ?case
  proof (cases "startsWithCI (c # cs) lit")
    case True
    with Cons.prems startsWithCI_length [OF True] show ?thesis by simp
  next
    case False
    with Cons.prems have "searchCI lit cs (Suc i) = Some j" by simp
    from Cons.IH [OF this] show ?thesis by simp
  qed
qed

lemma nameTokenRegex_exec_progress:
  assumes "nameTokenRegex_exec str lastIndex = Some m"
  shows "lastIndex < snd m \<and> snd m \<le> length str \<and> fst m < length str"
proof -
  from assms have le: "lastIndex \<le> length str"
    by (auto simp: nameTokenRegex_exec_def split: if_splits)
  from assms obtain j where j: "searchCI ''[name]'' (drop lastIndex str) lastIndex = Some j"
    and m: "m = (j, j + length ''[name]'')"
    by (auto simp: nameTokenRegex_exec_def split: if_splits)
  from searchCI_bounds [OF j] le m show ?thesis by auto
qed

lemma nameTokenLoop_total:
  "\<exists>p. nameTokenLoop str tokenIndex lastIndex n = Some p \<and> - 1 \<le> p \<and> p < int (length str)"
proof (induction "Suc (length str) - lastIndex" arbitrary: lastIndex n rule: less_induct)
  case less
  show ?case
  proof (cases "nameTokenRegex_exec str lastIndex")
    case None
    then show ?thesis by (subst nameTokenLoop.simps) simp
  next
    case (Some m)
    note prog = nameTokenRegex_exec_progress [OF Some]
    show ?thesis
    proof (cases "n = tokenIndex")
      case True
      with Some prog show ?thesis by (subst nameTokenLoop.simps) simp
    next
      case False
      from prog have "Suc (length str) - snd m < Suc (length str) - lastIndex" by arith
      from less [OF this, of "n + 1"] Some False show ?thesis
        by (subst nameTokenLoop.simps) simp
    qed
  qed
qed

text \<open>
  C6: for every placeholder, every full text (with or without a \<open>[name]\<close>, with
  unterminated brackets or not) and every integer index, the resolver returns a value:
  the scan for the \<open>[name]\<close> token leaves its loop, from the start and from every other
  state of the loop, and no step of the resolver fails. The result is a function of the
  three inputs.
\<close>

theorem getRoleFromPlaceholder_total:
  "(\<exists>v. getRoleFromPlaceholder placeholder fullInputContext tokenIndex = Some v)
   \<and> (\<exists>p. nameTokenLoop fullInputContext tokenIndex lastIndex nameTokenCount = Some p)"
proof
  obtain p where "nameTokenLoop fullInputContext tokenIndex 0 0 = Some p"
    using nameTokenLoop_total [of fullInputContext tokenIndex 0 0] by blast
  then show "\<exists>v. getRoleFromPlaceholder placeholder fullInputContext tokenIndex = Some v"
    by (simp add: getRoleFromPlaceholder_def Let_def split: option.splits)
next
  show "\<exists>p. nameTokenLoop fullInputContext tokenIndex lastIndex nameTokenCount = Some p"
    using nameTokenLoop_total [of fullInputContext tokenIndex lastIndex nameTokenCount]
    by blast
qed

theorem getRoleFromPlaceholder_total_witness:
  "(\<exists>v. getRoleFromPlaceholder ''name'' ''[Name] and [name with [OEM'' 7 = Some v)
   \<and> (\<exists>p. nameTokenLoop ''[Name] and [name with [OEM'' 7 0 0 = Some p)"
  using getRoleFromPlaceholder_total [of "''name''" "''[Name] and [name with [OEM''" 7 0 0] .

text \<open>
  C2: in \<open>Compare [Business Head] [Name] with [OEM] [Name]\<close> the first \<open>[Name]\<close>
  (index 0) resolves to Business Head and the second (index 1) to OEM.
\<close>

theorem name_disambiguation:
  "getRoleFromPlaceholder ''name'' ''Compare [Business Head] [Name] with [OEM] [Name]'' 0 =
     Some (Str ''Business Head'')
   \<and> getRoleFromPlaceholder ''name'' ''Compare [Business Head] [Name] with [OEM] [Name]'' 1 =
     Some (Str ''OEM'')"
  by code_simp

lemma positionBasedRole_None:
  "positionBasedRole fullInputContext pos = None \<longleftrightarrow>
     rolePatternsMatch
       (join '' '' (slice_last 5 (filter (\<lambda>word. 0 < length word)
          (splitWhiteSpace [] (toLowerCase (take pos fullInputContext))))))
       (toLowerCase (take pos fullInputContext)) = None \<and>
     multiNameLoop multiNamePatterns (toLowerCase fullInputContext)
       (countNameTokens (take pos fullInputContext)) = None"
  by (simp add: positionBasedRole_def Let_def split: option.splits)

text \<open>
  C7: \<open>resolve("name", "just some text with no role hints", 0)\<close> is Business Head; and
  whenever the placeholder is \<open>name\<close>, the position-based step finds no role (no role
  pattern and no relationship pattern matches, see \<open>positionBasedRole_None\<close>) at the
  position of the token, if the token is found, and no keyword occurs in the whole text,
  the resolver returns Business Head.
\<close>

theorem default_resolution:
  "getRoleFromPlaceholder ''name'' ''just some text with no role hints'' 0 =
     Some (Str ''Business Head'')
   \<and> (trim (toLowerCase placeholder) = ''name'' \<and>
      (\<forall>pos. nameTokenLoop fullInputContext tokenIndex 0 0 = Some (int pos) \<longrightarrow>
         positionBasedRole fullInputContext pos = None) \<and>
      keywordMatch (toLowerCase fullInputContext) = None
      \<longrightarrow> getRoleFromPlaceholder placeholder fullInputContext tokenIndex =
            Some (Str ''Business Head''))"
proof (intro conjI impI)
  show "getRoleFromPlaceholder ''name'' ''just some text with no role hints'' 0 =
     Some (Str ''Business Head'')"
    by code_simp
next
  assume a: "trim (toLowerCase placeholder) = ''name'' \<and>
      (\<forall>pos. nameTokenLoop fullInputContext tokenIndex 0 0 = Some (int pos) \<longrightarrow>
         positionBasedRole fullInputContext pos = None) \<and>
      keywordMatch (toLowerCase fullInputContext) = None"
  obtain p where p: "nameTokenLoop fullInputContext tokenIndex 0 0 = Some p"
    using nameTokenLoop_total [of fullInputContext tokenIndex 0 0] by blast
  have pos: "0 \<le> p \<Longrightarrow> positionBasedRole fullInputContext (nat p) = None"
    using a p by (metis int_nat_eq)
  have kw: "keywordFallback fullInputContext = ''Business Head''"
    using a by (simp add: keywordFallback_def)
  show "getRoleFromPlaceholder placeholder fullInputContext tokenIndex =
            Some (Str ''Business Head'')"
    using a p pos kw
    by (simp add: getRoleFromPlaceholder_def Let_def)
qed

theorem default_resolution_witness:
  "getRoleFromPlaceholder '' Name '' ''Show revenue for [Name] in 2024'' 0 =
     Some (Str ''Business Head'')"
proof -
  let ?ctx = "''Show revenue for [Name] in 2024''"
  have lp: "trim (toLowerCase '' Name '') = ''name''" by code_simp
  have loop: "nameTokenLoop ?ctx 0 0 0 = Some 17" by code_simp
  have pos: "positionBasedRole ?ctx 17 = None" by code_simp
  have kw: "keywordMatch (toLowerCase ?ctx) = None" by code_simp
  have "\<forall>pos. nameTokenLoop ?ctx 0 0 0 = Some (int pos) \<longrightarrow> positionBasedRole ?ctx pos = None"
    using loop pos by auto
  with lp kw show ?thesis
    using default_resolution [of "'' Name ''" ?ctx 0] by blast
qed

section \<open>Direct mapping\<close>

lemma partialMatch_not_inherited:
  "name \<in> set objectPrototypeNames \<Longrightarrow> partialMatch name = None"
proof -
  have "list_all (\<lambda>name. partialMatch name = None) objectPrototypeNames"
    by code_simp
  then show "name \<in> set objectPrototypeNames \<Longrightarrow> partialMatch name = None"
    by (simp add: list_all_iff)
qed

lemma direct_mapping_values_truthy:
  "map_of directRoleMapping name = Some role \<Longrightarrow> role \<noteq> []"
proof -
  have "list_all (\<lambda>(k, v). v \<noteq> []) directRoleMapping" by code_simp
  moreover assume "map_of directRoleMapping name = Some role"
  then have "(name, role) \<in> set directRoleMapping" by (rule map_of_SomeD)
  ultimately show ?thesis by (auto simp: list_all_iff)
qed

text \<open>
  C9: \<open>resolve("oem", anyText, anyIndex)\<close> is OEM for every text and every index; a
  placeholder other than \<open>name\<close> that is a key of the direct mapping, or that is no key
  and contains one, resolves to the role of that key (of the first such key, in the order
  of the table) for every text and every index; and no placeholder other than \<open>name\<close>
  has a result that depends on the text or the index.
\<close>

theorem direct_mapping_context_independent:
  "getRoleFromPlaceholder ''oem'' fullInputContext tokenIndex = Some (Str ''OEM'')
   \<and> (trim (toLowerCase placeholder) \<noteq> ''name'' \<and>
      (map_of directRoleMapping (trim (toLowerCase placeholder)) = Some role \<or>
       map_of directRoleMapping (trim (toLowerCase placeholder)) = None \<and>
       partialMatch (trim (toLowerCase placeholder)) = Some role)
      \<longrightarrow> getRoleFromPlaceholder placeholder fullInputContext tokenIndex = Some (Str role))
   \<and> (trim (toLowerCase placeholder) \<noteq> ''name''
      \<longrightarrow> getRoleFromPlaceholder placeholder fullInputContext tokenIndex =
          getRoleFromPlaceholder placeholder otherContext otherIndex)"
proof (intro conjI impI)
  have lp: "trim (toLowerCase ''oem'') = ''oem''" by code_simp
  have "getProperty directRoleMapping ''oem'' = Some (Str ''OEM'')" by code_simp
  then show "getRoleFromPlaceholder ''oem'' fullInputContext tokenIndex = Some (Str ''OEM'')"
    by (simp add: getRoleFromPlaceholder_def lp truthy_def)
next
  let ?lp = "trim (toLowerCase placeholder)"
  assume a: "?lp \<noteq> ''name'' \<and>
      (map_of directRoleMapping ?lp = Some role \<or>
       map_of directRoleMapping ?lp = None \<and> partialMatch ?lp = Some role)"
  then have "map_of directRoleMapping ?lp = Some role \<or>
       map_of directRoleMapping ?lp = None \<and> partialMatch ?lp = Some role"
    by (rule conjunct2)
  then consider (exact) "map_of directRoleMapping ?lp = Some role"
    | (part) "map_of directRoleMapping ?lp = None" "partialMatch ?lp = Some role"
    by (elim disjE conjE)
  then show "getRoleFromPlaceholder placeholder fullInputContext tokenIndex = Some (Str role)"
  proof cases
    case exact
    with a direct_mapping_values_truthy [OF exact] show ?thesis
      by (simp add: getRoleFromPlaceholder_def Let_def getProperty_def truthy_def)
  next
    case part
    from part(2) have "?lp \<notin> set objectPrototypeNames"
      using partialMatch_not_inherited [of ?lp] by auto
    with a part show ?thesis
      by (simp add: getRoleFromPlaceholder_def Let_def getProperty_def)
  qed
next
  assume "trim (toLowerCase placeholder) \<noteq> ''name''"
  then show "getRoleFromPlaceholder placeholder fullInputContext tokenIndex =
          getRoleFromPlaceholder placeholder otherContext otherIndex"
    by (simp add: getRoleFromPlaceholder_def Let_def)
qed

theorem direct_mapping_context_independent_witness:
  "getRoleFromPlaceholder '' Key Account '' ''Compare [OEM] with [Partner]'' 3 =
     Some (Str ''Vertical Account'')
   \<and> getRoleFromPlaceholder ''Business Manager'' ''Compare [OEM] with [Partner]'' 0 =
     Some (Str ''Regional Commercial Business Manager'')
   \<and> getRoleFromPlaceholder ''region'' ''sales of [OEM]'' 2 =
     getRoleFromPlaceholder ''region'' ''[Partner] list'' (- 1)"
proof -
  have lp1: "trim (toLowerCase '' Key Account '') = ''key account''"
    and lp2: "trim (toLowerCase ''Business Manager'') = ''business manager''"
    and lp3: "trim (toLowerCase ''region'') = ''region''"
    by code_simp+
  have m1: "map_of directRoleMapping ''key account'' = None"
    and p1: "partialMatch ''key account'' = Some ''Vertical Account''"
    and m2: "map_of directRoleMapping ''business manager'' =
               Some ''Regional Commercial Business Manager''"
    by code_simp+
  show ?thesis
    using direct_mapping_context_independent
        [of "''Compare [OEM] with [Partner]''" 3 "'' Key Account ''" "''Vertical Account''"]
      direct_mapping_context_independent
        [of "''Compare [OEM] with [Partner]''" 0 "''Business Manager''"
            "''Regional Commercial Business Manager''"]
      direct_mapping_context_independent
        [of "''sales of [OEM]''" 2 "''region''" "[]" "''[Partner] list''" "- 1"]
      lp1 lp2 lp3 m1 p1 m2
    by simp
qed

section \<open>The catalog lookup\<close>

text \<open>
  Every placeholder other than \<open>constructor\<close> and \<open>__proto__\<close> resolves to one of the
  eleven role names, and each of them has a non-empty list of candidates.
\<close>

lemma find_snd_in:
  "map_option snd (find P xs) = Some r \<Longrightarrow> r \<in> snd ` set xs"
  by (auto simp: find_Some_iff) (metis nth_mem snd_conv image_eqI)

lemma partialMatch_roleNames: "partialMatch lp = Some r \<Longrightarrow> r \<in> set roleNames"
proof -
  have "list_all (\<lambda>(k, v). v \<in> set roleNames) directRoleMapping" by code_simp
  then have "snd ` set directRoleMapping \<subseteq> set roleNames"
    by (auto simp: list_all_iff)
  moreover assume "partialMatch lp = Some r"
  then have "r \<in> snd ` set directRoleMapping"
    unfolding partialMatch_def by (rule find_snd_in)
  ultimately show ?thesis by blast
qed

lemma rolePatternsMatch_roleNames:
  "rolePatternsMatch a b = Some r \<Longrightarrow> r \<in> set roleNames"
proof -
  have "list_all (\<lambda>(k, v). v \<in> set roleNames) rolePatterns" by code_simp
  then have "snd ` set rolePatterns \<subseteq> set roleNames"
    by (auto simp: list_all_iff)
  moreover assume "rolePatternsMatch a b = Some r"
  then have "r \<in> snd ` set rolePatterns"
    unfolding rolePatternsMatch_def by (rule find_snd_in)
  ultimately show ?thesis by blast
qed

lemma multiNameLoop_roles:
  "multiNameLoop ps ctx n = Some r \<Longrightarrow>
     \<exists>p r0 r1. (p, r0, r1) \<in> set ps \<and> (r = r0 \<or> r = r1)"
  by (induction ps ctx n rule: multiNameLoop.induct) (auto split: if_splits)

lemma multiNameLoop_roleNames:
  assumes "multiNameLoop multiNamePatterns ctx n = Some r"
  shows "r \<in> set roleNames"
proof -
  have "list_all (\<lambda>(p, r0, r1). r0 \<in> set roleNames \<and> r1 \<in> set roleNames) multiNamePatterns"
    by code_simp
  with multiNameLoop_roles [OF assms] show ?thesis
    by (auto simp: list_all_iff)
qed

lemma positionBasedRole_roleNames:
  "positionBasedRole ctx pos = Some r \<Longrightarrow> r \<in> set roleNames"
  by (auto simp: positionBasedRole_def Let_def split: option.splits
      dest: rolePatternsMatch_roleNames multiNameLoop_roleNames)

lemma keywordFallback_roleNames: "keywordFallback ctx \<in> set roleNames"
proof (cases "keywordMatch (toLowerCase ctx)")
  case None
  have "''Business Head'' \<in> set roleNames" by code_simp
  with None show ?thesis by (simp add: keywordFallback_def)
next
  case (Some r)
  have "list_all (\<lambda>(k, v). v \<in> set roleNames) keywordToRole" by code_simp
  then have "snd ` set keywordToRole \<subseteq> set roleNames"
    by (auto simp: list_all_iff)
  moreover from Some have "r \<in> snd ` set keywordToRole"
    unfolding keywordMatch_def by (rule find_snd_in)
  ultimately show ?thesis using Some by (auto simp: keywordFallback_def)
qed

lemma direct_roleNames:
  "map_of directRoleMapping lp = Some r \<Longrightarrow> r \<in> set roleNames"
proof -
  have "list_all (\<lambda>(k, v). v \<in> set roleNames) directRoleMapping" by code_simp
  moreover assume "map_of directRoleMapping lp = Some r"
  then have "(lp, r) \<in> set directRoleMapping" by (rule map_of_SomeD)
  ultimately show ?thesis by (auto simp: list_all_iff)
qed

lemma items_roleNames:
  "r \<in> set roleNames \<Longrightarrow> \<exists>xs. items (Str r) = Candidates xs \<and> xs \<noteq> []"
proof -
  have "list_all
          (\<lambda>r. case items (Str r) of Candidates xs \<Rightarrow> xs \<noteq> [] | InheritedMember _ \<Rightarrow> False)
          roleNames"
    by code_simp
  moreover assume "r \<in> set roleNames"
  ultimately have
    "case items (Str r) of Candidates xs \<Rightarrow> xs \<noteq> [] | InheritedMember _ \<Rightarrow> False"
    by (simp add: list_all_iff)
  then show "\<exists>xs. items (Str r) = Candidates xs \<and> xs \<noteq> []"
    by (cases "items (Str r)") simp_all
qed

lemma set_trim: "set (trim s) \<subseteq> set s"
proof -
  have "set (trim s) = set (dropWhile isWhiteSpace (rev (dropWhile isWhiteSpace s)))"
    by (simp add: trim_def)
  also have "\<dots> \<subseteq> set (rev (dropWhile isWhiteSpace s))"
    by (auto dest: set_dropWhileD)
  also have "\<dots> \<subseteq> set s"
    by (auto dest: set_dropWhileD)
  finally show ?thesis .
qed

lemma lowerPlaceholder_lower:
  "toLowerCase (trim (toLowerCase p)) = trim (toLowerCase p)"
proof -
  have "toLowerChar c = c" if "c \<in> set (trim (toLowerCase p))" for c
  proof -
    from that set_trim have "c \<in> set (toLowerCase p)" by blast
    then show ?thesis by (auto simp: toLowerCase_def toLowerChar_idem)
  qed
  then show ?thesis by (simp add: toLowerCase_def map_idI)
qed

lemma inherited_lower:
  assumes "name \<in> set objectPrototypeNames" and "toLowerCase name = name"
  shows "name = ''constructor'' \<or> name = ''__proto__''"
proof -
  have "list_all (\<lambda>name. toLowerCase name = name \<longrightarrow>
          name = ''constructor'' \<or> name = ''__proto__'') objectPrototypeNames"
    by code_simp
  with assms show ?thesis by (auto simp: list_all_iff)
qed

lemma resolver_role_names:
  assumes "trim (toLowerCase placeholder) \<noteq> ''constructor''"
    and "trim (toLowerCase placeholder) \<noteq> ''__proto__''"
  shows "\<exists>r xs. getRoleFromPlaceholder placeholder fullInputContext tokenIndex = Some (Str r) \<and>
             r \<in> set roleNames \<and> items (Str r) = Candidates xs \<and> xs \<noteq> []"
proof -
  let ?lp = "trim (toLowerCase placeholder)"
  have ni: "?lp \<notin> set objectPrototypeNames"
    using inherited_lower [of ?lp] lowerPlaceholder_lower [of placeholder] assms by blast
  obtain p where p: "nameTokenLoop fullInputContext tokenIndex 0 0 = Some p"
    using nameTokenLoop_total [of fullInputContext tokenIndex 0 0] by blast
  have bh: "''Business Head'' \<in> set roleNames" by code_simp
  have "\<exists>r. getRoleFromPlaceholder placeholder fullInputContext tokenIndex = Some (Str r) \<and>
             r \<in> set roleNames"
    using ni p bh keywordFallback_roleNames [of fullInputContext]
    by (auto simp: getRoleFromPlaceholder_def Let_def getProperty_def truthy_def
        split: option.splits if_splits
        dest: direct_roleNames partialMatch_roleNames positionBasedRole_roleNames)
  then show ?thesis using items_roleNames by blast
qed

text \<open>
  C10 (where the code departs from it): the placeholder \<open>constructor\<close> is not \<open>name\<close>,
  and \<open>directRoleMapping["constructor"]\<close> is the function inherited from
  \<open>Object.prototype\<close>, which is truthy; the resolver returns it. It is none of the
  eleven role names, and the catalog has no entry for it: the list of candidates is the
  empty list of the \<open>|| []\<close> branch. The same holds for \<open>__proto__\<close>; for every other
  placeholder the result is a role name with candidates (\<open>resolver_role_names\<close>).
\<close>

theorem inherited_property_is_no_role:
  "getRoleFromPlaceholder ''constructor'' fullInputContext tokenIndex =
     Some (Inherited ''constructor'')
   \<and> Inherited ''constructor'' \<notin> Str ` set roleNames
   \<and> items (Inherited ''constructor'') = Candidates []"
proof -
  have lp: "trim (toLowerCase ''constructor'') = ''constructor''" by code_simp
  have "getProperty directRoleMapping ''constructor'' = Some (Inherited ''constructor'')"
    by code_simp
  then show ?thesis
    by (auto simp: getRoleFromPlaceholder_def lp truthy_def items_def)
qed


section \<open>The applier replaces one token\<close>

lemma matchToken_Some_iff:
  "matchToken s = Some n \<longleftrightarrow>
     (\<exists>run rest. s = CHR ''['' # run @ CHR '']'' # rest \<and> run \<noteq> [] \<and>
        CHR '']'' \<notin> set run \<and> n = length run + 2)"
proof
  assume a: "matchToken s = Some n"
  then obtain cs where s: "s = CHR ''['' # cs"
    by (auto simp: matchToken_def split: list.splits if_splits)
  let ?run = "takeWhile (\<lambda>x. x \<noteq> CHR '']'') cs"
  from a s have r: "?run \<noteq> []" and l: "length ?run < length cs" and n: "n = length ?run + 2"
    by (auto simp: matchToken_def Let_def split: if_splits)
  from l have "dropWhile (\<lambda>x. x \<noteq> CHR '']'') cs \<noteq> []"
    by (metis append_Nil2 less_irrefl takeWhile_dropWhile_id)
  then obtain y ys where d: "dropWhile (\<lambda>x. x \<noteq> CHR '']'') cs = y # ys"
    by (cases "dropWhile (\<lambda>x. x \<noteq> CHR '']'') cs") auto
  then have "y = CHR '']''"
    using hd_dropWhile [of "\<lambda>x. x \<noteq> CHR '']''" cs] by auto
  with d have "cs = ?run @ CHR '']'' # ys"
    by (metis takeWhile_dropWhile_id)
  moreover have "CHR '']'' \<notin> set ?run"
    by (metis (mono_tags, lifting) set_takeWhileD)
  ultimately show "\<exists>run rest. s = CHR ''['' # run @ CHR '']'' # rest \<and> run \<noteq> [] \<and>
        CHR '']'' \<notin> set run \<and> n = length run + 2"
    using s r n by blast
next
  assume "\<exists>run rest. s = CHR ''['' # run @ CHR '']'' # rest \<and> run \<noteq> [] \<and>
        CHR '']'' \<notin> set run \<and> n = length run + 2"
  then obtain run rest where s: "s = CHR ''['' # run @ CHR '']'' # rest" and r: "run \<noteq> []"
    and nin: "CHR '']'' \<notin> set run" and n: "n = length run + 2"
    by blast
  from nin have "takeWhile (\<lambda>x. x \<noteq> CHR '']'') (run @ CHR '']'' # rest) = run"
    by (induction run) auto
  with s r n show "matchToken s = Some n"
    by (simp add: matchToken_def)
qed

lemma matchToken_append:
  assumes "matchToken s = Some n"
  shows "matchToken (s @ t) = Some n"
proof -
  from assms obtain run rest where "s = CHR ''['' # run @ CHR '']'' # rest" "run \<noteq> []"
    "CHR '']'' \<notin> set run" "n = length run + 2"
    unfolding matchToken_Some_iff by blast
  then have "\<exists>run' rest'. s @ t = CHR ''['' # run' @ CHR '']'' # rest' \<and> run' \<noteq> [] \<and>
        CHR '']'' \<notin> set run' \<and> n = length run' + 2"
    by (intro exI [of _ run] exI [of _ "rest @ t"]) simp
  then show ?thesis unfolding matchToken_Some_iff .
qed

lemma matchToken_take:
  assumes "matchToken s = Some n"
  shows "matchToken (take n s @ t) = Some n"
proof -
  from assms obtain run rest where s: "s = CHR ''['' # run @ CHR '']'' # rest" and r: "run \<noteq> []"
    and nin: "CHR '']'' \<notin> set run" and n: "n = length run + 2"
    unfolding matchToken_Some_iff by blast
  from s n have "take n s = CHR ''['' # run @ [CHR '']'']" by simp
  then have "\<exists>run' rest'. take n s @ t = CHR ''['' # run' @ CHR '']'' # rest' \<and> run' \<noteq> [] \<and>
        CHR '']'' \<notin> set run' \<and> n = length run' + 2"
    using r nin n by (intro exI [of _ run] exI [of _ t]) simp
  then show ?thesis unfolding matchToken_Some_iff .
qed

lemma matchToken_None_prefix: "matchToken (s @ t) = None \<Longrightarrow> matchToken s = None"
  using matchToken_append [of s _ t] by (cases "matchToken s") auto

lemma matchAll_Some:
  assumes "matchToken s = Some n"
  shows "matchAll s = take n s # matchAll (drop n s)"
proof (cases s)
  case Nil
  with assms show ?thesis by (simp add: matchToken_def)
next
  case (Cons c cs)
  with assms show ?thesis by simp
qed

lemma replaceAllTokens_Some:
  assumes "matchToken s = Some n"
  shows "replaceAllTokens callback st s =
           fst (callback st (take n s)) @
           replaceAllTokens callback (snd (callback st (take n s))) (drop n s)"
proof (cases s)
  case Nil
  with assms show ?thesis by (simp add: matchToken_def)
next
  case (Cons c cs)
  with assms show ?thesis by (simp add: case_prod_beta)
qed

lemma replaceAllTokens_done:
  "k \<noteq> 0 \<Longrightarrow> replaceAllTokens (replacer tokenToReplace v) k s = s"
proof (induction "length s" arbitrary: s rule: less_induct)
  case less
  show ?case
  proof (cases s)
    case Nil
    then show ?thesis by simp
  next
    case (Cons c cs)
    show ?thesis
    proof (cases "matchToken s")
      case None
      with Cons less.hyps [of cs] less.prems show ?thesis by simp
    next
      case (Some n)
      from matchToken_pos [OF Some] have "length (drop n s) < length s" by auto
      from less.hyps [OF this less.prems] less.prems show ?thesis
        by (simp add: replaceAllTokens_Some [OF Some] replacer_def)
    qed
  qed
qed

lemma replaceAllTokens_first:
  assumes "list_ex (\<lambda>t. toLowerCase t = toLowerCase tokenToReplace) (matchAll s)"
  shows "\<exists>pre tok post.
           s = pre @ tok @ post \<and>
           toLowerCase tok = toLowerCase tokenToReplace \<and>
           matchToken (tok @ post) = Some (length tok) \<and>
           matchAll s = matchAll pre @ tok # matchAll post \<and>
           \<not> list_ex (\<lambda>t. toLowerCase t = toLowerCase tokenToReplace) (matchAll pre) \<and>
           replaceAllTokens (replacer tokenToReplace v) 0 s = pre @ v @ post"
  using assms
proof (induction "length s" arbitrary: s rule: less_induct)
  case less
  let ?P = "\<lambda>t. toLowerCase t = toLowerCase tokenToReplace"
  show ?case
  proof (cases s)
    case Nil
    with less.prems show ?thesis by simp
  next
    case (Cons c cs)
    show ?thesis
    proof (cases "matchToken s")
      case None
      with Cons less.prems have "list_ex ?P (matchAll cs)" by simp
      from less.hyps [OF _ this] Cons obtain pre tok post where
        cs: "cs = pre @ tok @ post" and P: "?P tok"
        and mt: "matchToken (tok @ post) = Some (length tok)"
        and ma: "matchAll cs = matchAll pre @ tok # matchAll post"
        and np: "\<not> list_ex ?P (matchAll pre)"
        and re: "replaceAllTokens (replacer tokenToReplace v) 0 cs = pre @ v @ post"
        by auto
      from None Cons cs have "matchToken ((c # pre) @ (tok @ post)) = None" by simp
      then have n': "matchToken (c # pre) = None" by (rule matchToken_None_prefix)
      have "s = (c # pre) @ tok @ post" using Cons cs by simp
      moreover have "matchAll s = matchAll (c # pre) @ tok # matchAll post"
        using Cons None n' ma by simp
      moreover have "\<not> list_ex ?P (matchAll (c # pre))" using n' np by simp
      moreover have "replaceAllTokens (replacer tokenToReplace v) 0 s = (c # pre) @ v @ post"
        using Cons None re by simp
      ultimately show ?thesis using P mt by blast
    next
      case (Some n)
      note pos = matchToken_pos [OF Some]
      let ?tok0 = "take n s" and ?rest = "drop n s"
      have len0: "length ?tok0 = n" using pos by simp
      show ?thesis
      proof (cases "?P ?tok0")
        case True
        have "s = [] @ ?tok0 @ ?rest" by simp
        moreover have "matchToken (?tok0 @ ?rest) = Some (length ?tok0)"
          using Some len0 by simp
        moreover have "matchAll s = matchAll [] @ ?tok0 # matchAll ?rest"
          using matchAll_Some [OF Some] by simp
        moreover have "replaceAllTokens (replacer tokenToReplace v) 0 s = [] @ v @ ?rest"
          using True by (simp add: replaceAllTokens_Some [OF Some] replacer_def
              replaceAllTokens_done)
        moreover have "\<not> list_ex ?P (matchAll [])" by simp
        ultimately show ?thesis using True by blast
      next
        case False
        with less.prems have ex: "list_ex ?P (matchAll ?rest)"
          by (simp add: matchAll_Some [OF Some])
        have "length ?rest < length s" using pos by auto
        from less.hyps [OF this ex] obtain pre tok post where
          rest: "?rest = pre @ tok @ post" and P: "?P tok"
          and mt: "matchToken (tok @ post) = Some (length tok)"
          and ma: "matchAll ?rest = matchAll pre @ tok # matchAll post"
          and np: "\<not> list_ex ?P (matchAll pre)"
          and re: "replaceAllTokens (replacer tokenToReplace v) 0 ?rest = pre @ v @ post"
          by auto
        have mt0: "matchToken (?tok0 @ pre) = Some n" using Some by (rule matchToken_take)
        have ma0: "matchAll (?tok0 @ pre) = ?tok0 # matchAll pre"
          using matchAll_Some [OF mt0] len0 by simp
        have "s = (?tok0 @ pre) @ tok @ post"
          using rest by (metis append.assoc append_take_drop_id)
        moreover have "matchAll s = matchAll (?tok0 @ pre) @ tok # matchAll post"
          using matchAll_Some [OF Some] ma ma0 by simp
        moreover have "\<not> list_ex ?P (matchAll (?tok0 @ pre))"
          using ma0 False np by simp
        moreover have
          "replaceAllTokens (replacer tokenToReplace v) 0 s = (?tok0 @ pre) @ v @ post"
          using False re by (simp add: replaceAllTokens_Some [OF Some] replacer_def)
        ultimately show ?thesis using P mt by blast
      qed
    qed
  qed
qed

lemma findIndexWith_found:
  "0 \<le> findIndexWith Q xs i \<Longrightarrow> list_ex (\<lambda>x. \<exists>j. Q x j) xs"
  by (induction xs arbitrary: i) (auto split: if_splits)

text \<open>
  C3 (as the code has it): for the input \<open>[OEM] partnered with [OEM]\<close>, the index 0
  and the value \<open>Cisco\<close> the applier gives \<open>Cisco partnered with [OEM]\<close>. In general,
  when the index is in range and the search for the token succeeds, exactly one bracket
  token of the input is replaced by the value: the left-most of the tokens found by the
  scan for \<open>\[[^\]]+\]\<close> whose text is \<open>[role]\<close>, compared without regard to case. The
  text before it and the text after it stay as they are, and the selection is cleared.
\<close>

theorem selective_replacement:
  "handleDropdownSelect ''Cisco''
      \<lparr>input = ''[OEM] partnered with [OEM]'', activeDropdown = Some ''oem'',
       currentTokenIndex = 0\<rparr> =
     Some \<lparr>input = ''Cisco partnered with [OEM]'', activeDropdown = None,
           currentTokenIndex = - 1\<rparr>
   \<and> (role \<noteq> [] \<and> 0 \<le> idx \<and> idx < int (length (matchAll s)) \<and>
      0 \<le> findIndexWith
             (\<lambda>token index. toLowerCase token = toLowerCase (''['' @ role @ '']'') \<and>
                             idx \<le> index)
             (matchAll s) 0
      \<longrightarrow> (\<exists>pre tok post.
             s = pre @ tok @ post \<and>
             toLowerCase tok = toLowerCase (''['' @ role @ '']'') \<and>
             matchAll s = matchAll pre @ tok # matchAll post \<and>
             \<not> list_ex (\<lambda>t. toLowerCase t = toLowerCase (''['' @ role @ '']''))
                 (matchAll pre) \<and>
             handleDropdownSelect v
               \<lparr>input = s, activeDropdown = Some role, currentTokenIndex = idx\<rparr> =
               Some \<lparr>input = pre @ v @ post, activeDropdown = None,
                     currentTokenIndex = - 1\<rparr>))"
proof (intro conjI impI)
  show "handleDropdownSelect ''Cisco''
      \<lparr>input = ''[OEM] partnered with [OEM]'', activeDropdown = Some ''oem'',
       currentTokenIndex = 0\<rparr> =
     Some \<lparr>input = ''Cisco partnered with [OEM]'', activeDropdown = None,
           currentTokenIndex = - 1\<rparr>"
    by code_simp
next
  let ?ttr = "''['' @ role @ '']''"
  let ?Q = "\<lambda>token index. toLowerCase token = toLowerCase ?ttr \<and> idx \<le> index"
  assume a: "role \<noteq> [] \<and> 0 \<le> idx \<and> idx < int (length (matchAll s)) \<and>
      0 \<le> findIndexWith ?Q (matchAll s) 0"
  then have "list_ex (\<lambda>x. \<exists>j. ?Q x j) (matchAll s)"
    by (intro findIndexWith_found [of ?Q _ 0]) simp
  then have "list_ex (\<lambda>t. toLowerCase t = toLowerCase ?ttr) (matchAll s)"
    by (auto simp: list_ex_iff)
  from replaceAllTokens_first [OF this, of v] obtain pre tok post where
    s: "s = pre @ tok @ post" and P: "toLowerCase tok = toLowerCase ?ttr"
    and ma: "matchAll s = matchAll pre @ tok # matchAll post"
    and np: "\<not> list_ex (\<lambda>t. toLowerCase t = toLowerCase ?ttr) (matchAll pre)"
    and re: "replaceAllTokens (replacer ?ttr v) 0 s = pre @ v @ post"
    by blast
  have "handleDropdownSelect v
          \<lparr>input = s, activeDropdown = Some role, currentTokenIndex = idx\<rparr> =
        Some \<lparr>input = pre @ v @ post, activeDropdown = None, currentTokenIndex = - 1\<rparr>"
    using a re by (simp add: handleDropdownSelect_def newInput_def Let_def)
  with s P ma np show "\<exists>pre tok post.
             s = pre @ tok @ post \<and>
             toLowerCase tok = toLowerCase ?ttr \<and>
             matchAll s = matchAll pre @ tok # matchAll post \<and>
             \<not> list_ex (\<lambda>t. toLowerCase t = toLowerCase ?ttr) (matchAll pre) \<and>
             handleDropdownSelect v
               \<lparr>input = s, activeDropdown = Some role, currentTokenIndex = idx\<rparr> =
               Some \<lparr>input = pre @ v @ post, activeDropdown = None,
                     currentTokenIndex = - 1\<rparr>"
    by blast
qed

theorem selective_replacement_witness:
  "\<exists>pre tok post.
     ''[Partner] sold [oem] and [OEM]'' = pre @ tok @ post \<and>
     toLowerCase tok = ''[oem]'' \<and>
     matchAll ''[Partner] sold [oem] and [OEM]'' = matchAll pre @ tok # matchAll post \<and>
     \<not> list_ex (\<lambda>t. toLowerCase t = ''[oem]'') (matchAll pre) \<and>
     handleDropdownSelect ''Cisco''
       \<lparr>input = ''[Partner] sold [oem] and [OEM]'', activeDropdown = Some ''oem'',
        currentTokenIndex = 2\<rparr> =
       Some \<lparr>input = pre @ ''Cisco'' @ post, activeDropdown = None,
             currentTokenIndex = - 1\<rparr>"
proof -
  let ?s = "''[Partner] sold [oem] and [OEM]''"
  have len: "length (matchAll ?s) = 3" by code_simp
  have fi: "findIndexWith
             (\<lambda>token index. toLowerCase token = toLowerCase (''['' @ ''oem'' @ '']'') \<and>
                             2 \<le> index)
             (matchAll ?s) 0 = 2"
    by code_simp
  have low: "toLowerCase (''['' @ ''oem'' @ '']'') = ''[oem]''" by code_simp
  show ?thesis
    using selective_replacement [of "''oem''" 2 ?s "''Cisco''"] len fi low
    by simp
qed

text \<open>
  The replaced token need not be the left-most place of the text where \<open>[role]\<close>
  occurs: in \<open>[[OEM] [OEM]\<close> the scan finds the tokens \<open>[[OEM]\<close> and \<open>[OEM]\<close>, and a
  click on the second one replaces it, while the text \<open>[OEM]\<close> occurs first inside the
  first token.
\<close>

theorem selective_replacement_not_leftmost_occurrence:
  "handleTokenClick (parse ''[[OEM] [OEM]'') (parse ''[[OEM] [OEM]'' ! 2) = Some (''oem'', 1)
   \<and> map_option input
       (handleDropdownSelect ''Cisco''
          \<lparr>input = ''[[OEM] [OEM]'', activeDropdown = Some ''oem'', currentTokenIndex = 1\<rparr>) =
     Some ''[[OEM] Cisco''
   \<and> replaceLeftmostOccurrence ''[oem]'' ''Cisco'' ''[[OEM] [OEM]'' = ''[Cisco [OEM]''
   \<and> map_option input
       (handleDropdownSelect ''Cisco''
          \<lparr>input = ''[[OEM] [OEM]'', activeDropdown = Some ''oem'', currentTokenIndex = 1\<rparr>) \<noteq>
     Some (replaceLeftmostOccurrence ''[oem]'' ''Cisco'' ''[[OEM] [OEM]'')"
  by code_simp

section \<open>The pattern of the fallback\<close>

lemma escapeClass_syntaxCharacters: "set escapeClass = set syntaxCharacters"
  by (auto simp: escapeClass_def syntaxCharacters_def)

lemma backslash_syntaxCharacter: "backslash \<in> set syntaxCharacters"
  by (simp add: syntaxCharacters_def)

lemma literalPattern_escapeRegExp:
  "literalPattern (escapeRegExp s @ rest) = map_option ((@) s) (literalPattern rest)"
proof (induction s)
  case Nil
  show ?case by (simp add: escapeRegExp_def option.map_ident)
next
  case (Cons c s)
  have step: "escapeRegExp (c # s) @ rest =
      (if c \<in> set escapeClass then [backslash, c] else [c]) @ escapeRegExp s @ rest"
    by (simp add: escapeRegExp_def)
  show ?case
  proof (cases "c \<in> set syntaxCharacters")
    case True
    with Cons show ?thesis
      by (simp add: step escapeClass_syntaxCharacters option.map_comp comp_def)
  next
    case False
    then have "c \<noteq> backslash" using backslash_syntaxCharacter by auto
    with False Cons show ?thesis
      by (simp add: step escapeClass_syntaxCharacters option.map_comp comp_def)
  qed
qed

lemma literalPattern_patternSource:
  "literalPattern (patternSource role) = Some (''['' @ role @ '']'')"
proof -
  have close: "literalPattern [backslash, CHR '']''] = Some '']''"
    by (simp add: syntaxCharacters_def)
  have "literalPattern (patternSource role) =
        map_option ((#) CHR ''['') (literalPattern (escapeRegExp role @ [backslash, CHR '']'']))"
    by (simp add: patternSource_def syntaxCharacters_def)
  also have "\<dots> = Some (''['' @ role @ '']'')"
    by (simp only: literalPattern_escapeRegExp close) simp
  finally show ?thesis .
qed

lemma searchCI_Some:
  "searchCI lit s k = Some i \<Longrightarrow>
     \<exists>j. i = k + j \<and> j \<le> length s \<and> startsWithCI (drop j s) lit \<and>
         (\<forall>j'<j. \<not> startsWithCI (drop j' s) lit)"
proof (induction s arbitrary: k)
  case Nil
  then show ?case by (auto split: if_splits)
next
  case (Cons c cs)
  show ?case
  proof (cases "startsWithCI (c # cs) lit")
    case True
    with Cons.prems show ?thesis by (intro exI [of _ 0]) simp
  next
    case False
    with Cons.prems have "searchCI lit cs (Suc k) = Some i" by simp
    from Cons.IH [OF this] obtain j where j: "i = Suc k + j" "j \<le> length cs"
      "startsWithCI (drop j cs) lit" "\<forall>j'<j. \<not> startsWithCI (drop j' cs) lit"
      by blast
    have "\<forall>j'<Suc j. \<not> startsWithCI (drop j' (c # cs)) lit"
    proof (intro allI impI)
      fix j' assume "j' < Suc j"
      then show "\<not> startsWithCI (drop j' (c # cs)) lit"
        using False j(4) by (cases j') auto
    qed
    with j show ?thesis by (intro exI [of _ "Suc j"]) simp
  qed
qed

lemma searchCI_None:
  "searchCI lit s k = None \<Longrightarrow> j \<le> length s \<Longrightarrow> \<not> startsWithCI (drop j s) lit"
proof (induction s arbitrary: k j)
  case Nil
  then show ?case by (cases lit) (auto split: if_splits)
next
  case (Cons c cs)
  then show ?case by (cases j) (auto split: if_splits)
qed

lemma occurrence_startsWithCI:
  assumes "s = before @ m @ after" and "toLowerCase m = toLowerCase lit"
  shows "startsWithCI (drop (length before) s) lit"
proof -
  from assms(2) have "length m = length lit"
    by (metis length_map toLowerCase_def)
  with assms show ?thesis by (simp add: startsWithCI_iff)
qed

lemma startsWithCI_occurrence:
  assumes "startsWithCI (drop j s) lit"
  shows "s = take j s @ take (length lit) (drop j s) @ drop (j + length lit) s \<and>
         toLowerCase (take (length lit) (drop j s)) = toLowerCase lit"
proof -
  have "drop j s = take (length lit) (drop j s) @ drop (length lit) (drop j s)"
    by (simp only: append_take_drop_id)
  then have "drop j s = take (length lit) (drop j s) @ drop (j + length lit) s"
    by (simp only: drop_drop add.commute)
  then have "s = take j s @ take (length lit) (drop j s) @ drop (j + length lit) s"
    by (metis append_take_drop_id)
  with assms show ?thesis by (simp add: startsWithCI_iff)
qed

text \<open>
  C8: for every placeholder, with or without syntax characters of regular expressions
  (such as \<open>end (customer)\<close>), the pattern built by the fallback is accepted and stands
  for the literal text \<open>[\<close> placeholder \<open>]\<close> and nothing else; applying it returns the
  input unchanged when that text does not occur in it, compared without regard to case,
  and otherwise replaces its left-most occurrence and leaves the text before and after
  that occurrence as it is. No call of the applier fails.
\<close>

theorem escaping_safety:
  "literalPattern (patternSource role) = Some (''['' @ role @ '']'')
   \<and> (\<exists>r. fallbackReplace role v s = Some r \<and>
        (if \<exists>before m after.
              s = before @ m @ after \<and> toLowerCase m = toLowerCase (''['' @ role @ '']'')
         then \<exists>before m after.
              s = before @ m @ after \<and> toLowerCase m = toLowerCase (''['' @ role @ '']'') \<and>
              (\<forall>before' m' after'.
                  s = before' @ m' @ after' \<and>
                  toLowerCase m' = toLowerCase (''['' @ role @ '']'')
                  \<longrightarrow> length before \<le> length before') \<and>
              r = before @ getSubstitution m before after v @ after
         else r = s))
   \<and> (\<exists>st'. handleDropdownSelect v st = Some st')"
proof (intro conjI)
  let ?lit = "''['' @ role @ '']''"
  show lp: "literalPattern (patternSource role) = Some ?lit"
    by (rule literalPattern_patternSource)
  have fb: "fallbackReplace role v s = Some (replaceFirstCI ?lit v s)" for v s
    by (simp add: fallbackReplace_def lp del: append.simps)
  show "\<exists>st'. handleDropdownSelect v st = Some st'"
  proof (cases "activeDropdown st")
    case None
    then show ?thesis by (simp add: handleDropdownSelect_def)
  next
    case (Some role')
    have "literalPattern (patternSource role') = Some (''['' @ role' @ '']'')"
      by (rule literalPattern_patternSource)
    then have "\<exists>r. fallbackReplace role' v (input st) = Some r"
      by (simp add: fallbackReplace_def del: append.simps)
    then have "\<exists>r. newInput v role' (currentTokenIndex st) (input st) = Some r"
      by (auto simp: newInput_def Let_def)
    with Some show ?thesis by (auto simp: handleDropdownSelect_def)
  qed
  show "\<exists>r. fallbackReplace role v s = Some r \<and>
        (if \<exists>before m after. s = before @ m @ after \<and> toLowerCase m = toLowerCase ?lit
         then \<exists>before m after.
              s = before @ m @ after \<and> toLowerCase m = toLowerCase ?lit \<and>
              (\<forall>before' m' after'.
                  s = before' @ m' @ after' \<and> toLowerCase m' = toLowerCase ?lit
                  \<longrightarrow> length before \<le> length before') \<and>
              r = before @ getSubstitution m before after v @ after
         else r = s)"
  proof (cases "searchCI ?lit s 0")
    case None
    have no: "\<not> (\<exists>before m after. s = before @ m @ after \<and> toLowerCase m = toLowerCase ?lit)"
    proof
      assume "\<exists>before m after. s = before @ m @ after \<and> toLowerCase m = toLowerCase ?lit"
      then obtain before m after where o: "s = before @ m @ after"
        "toLowerCase m = toLowerCase ?lit" by blast
      from occurrence_startsWithCI [OF o] have "startsWithCI (drop (length before) s) ?lit" .
      moreover have "length before \<le> length s" using o(1) by simp
      ultimately show False using searchCI_None [OF None] by blast
    qed
    have "replaceFirstCI ?lit v s = s" using None by (simp add: replaceFirstCI_def)
    with no show ?thesis by (simp only: fb if_False) simp
  next
    case (Some i)
    from searchCI_Some [OF Some] have i: "i \<le> length s" "startsWithCI (drop i s) ?lit"
      and least: "\<forall>j'<i. \<not> startsWithCI (drop j' s) ?lit"
      by auto
    let ?before = "take i s" and ?m = "take (length ?lit) (drop i s)"
      and ?after = "drop (i + length ?lit) s"
    from startsWithCI_occurrence [OF i(2)] have dec: "s = ?before @ ?m @ ?after"
      and low: "toLowerCase ?m = toLowerCase ?lit" by simp_all
    have left: "\<forall>before' m' after'.
        s = before' @ m' @ after' \<and> toLowerCase m' = toLowerCase ?lit
        \<longrightarrow> length ?before \<le> length before'"
    proof (intro allI impI)
      fix before' m' after'
      assume o: "s = before' @ m' @ after' \<and> toLowerCase m' = toLowerCase ?lit"
      then have "startsWithCI (drop (length before') s) ?lit"
        using occurrence_startsWithCI [of s before' m' after' ?lit] by blast
      with least have "\<not> length before' < i" by blast
      with i(1) show "length ?before \<le> length before'" by simp
    qed
    have r: "replaceFirstCI ?lit v s = ?before @ getSubstitution ?m ?before ?after v @ ?after"
      using Some by (simp add: replaceFirstCI_def Let_def del: append.simps)
    have ex: "\<exists>before m after. s = before @ m @ after \<and> toLowerCase m = toLowerCase ?lit"
      using dec low by blast
    have "\<exists>before m after.
              s = before @ m @ after \<and> toLowerCase m = toLowerCase ?lit \<and>
              (\<forall>before' m' after'.
                  s = before' @ m' @ after' \<and> toLowerCase m' = toLowerCase ?lit
                  \<longrightarrow> length before \<le> length before') \<and>
              replaceFirstCI ?lit v s = before @ getSubstitution m before after v @ after"
      using dec low left r by blast
    with ex show ?thesis by (simp only: fb if_True) blast
  qed
qed

theorem escaping_safety_witness:
  "literalPattern (patternSource ''end (customer)'') = Some ''[end (customer)]''
   \<and> fallbackReplace ''end (customer)'' ''Infosys'' ''Sales to [End (Customer)] by (region)'' =
       Some ''Sales to Infosys by (region)''
   \<and> (\<exists>st'. handleDropdownSelect ''Infosys''
         \<lparr>input = ''Sales to [End (Customer)] by (region)'',
          activeDropdown = Some ''end (customer)'', currentTokenIndex = - 1\<rparr> = Some st')"
proof -
  have "fallbackReplace ''end (customer)'' ''Infosys'' ''Sales to [End (Customer)] by (region)'' =
       Some ''Sales to Infosys by (region)''"
    by code_simp
  then show ?thesis
    using escaping_safety [of "''end (customer)''" "''Infosys''"
        "''Sales to [End (Customer)] by (region)''"
        "\<lparr>input = ''Sales to [End (Customer)] by (region)'',
          activeDropdown = Some ''end (customer)'', currentTokenIndex = - 1\<rparr>"]
    by simp
qed

end
